theory Spec2Isabelle
  imports Complex_Main "HOL-Library.Sublist"
begin

section \<open>The in-memory table\<close>

text \<open>
  The dashboard script \<^verbatim>\<open>src/app/main.py\<close> holds one table, \<^verbatim>\<open>data\<close>, the result of
  \<^verbatim>\<open>pd.read_csv\<close>. A cell is missing (NaN), a number, a boolean or a string. The number
  type is a parameter: the script never computes with the numbers itself.
\<close>

datatype 'n cell = NA | Num 'n | Flag bool | Str string

text \<open>
  The script tells column types apart only through \<^verbatim>\<open>select_dtypes(include='object')\<close> and
  \<^verbatim>\<open>select_dtypes(include='number')\<close>: \<open>NumberT\<close> stands for int64 and float64,
  \<open>BoolT\<close> for a column that is neither a number nor an object column.
\<close>

datatype dtype = NumberT | BoolT | ObjectT

record 'n column =
  cname :: string
  dtype :: dtype
  cells :: "'n cell list"

type_synonym 'n frame = "'n column list"

definition nrows :: "'n frame \<Rightarrow> nat" where
  "nrows df = (case df of [] \<Rightarrow> 0 | c # _ \<Rightarrow> length (cells c))"

text \<open>
  What \<^verbatim>\<open>pd.read_csv\<close> returns: column names are distinct (duplicates are renamed on
  load) and every column has one cell per row.
\<close>

definition wf_frame :: "'n frame \<Rightarrow> bool" where
  "wf_frame df = (distinct (map cname df) \<and> list_all (\<lambda>c. length (cells c) = nrows df) df)"

text \<open>Row \<open>i\<close> of the table, and the table read row by row.\<close>

definition row :: "'n frame \<Rightarrow> nat \<Rightarrow> 'n cell list" where
  "row df i = map (\<lambda>c. cells c ! i) df"

definition rows :: "'n frame \<Rightarrow> 'n cell list list" where
  "rows df = map (row df) [0..<nrows df]"

subsection \<open>The dataframe calls of the script\<close>

text \<open>\<^verbatim>\<open>data.head()\<close>: the first five rows.\<close>

definition head :: "'n frame \<Rightarrow> 'n frame" where
  "head df = map (\<lambda>c. c\<lparr>cells := take 5 (cells c)\<rparr>) df"

text \<open>\<^verbatim>\<open>data.shape\<close>, \<^verbatim>\<open>data.columns.tolist()\<close>, \<^verbatim>\<open>data.dtypes\<close>.\<close>

definition shape :: "'n frame \<Rightarrow> nat \<times> nat" where
  "shape df = (nrows df, length df)"

definition columns :: "'n frame \<Rightarrow> string list" where
  "columns df = map cname df"

definition dtypes :: "'n frame \<Rightarrow> (string \<times> dtype) list" where
  "dtypes df = map (\<lambda>c. (cname c, dtype c)) df"

text \<open>\<^verbatim>\<open>data.isnull().sum()\<close>: the number of missing cells of each column.\<close>

definition isnull_sum :: "'n frame \<Rightarrow> (string \<times> nat) list" where
  "isnull_sum df = map (\<lambda>c. (cname c, length (filter (\<lambda>x. x = NA) (cells c)))) df"

text \<open>
  \<^verbatim>\<open>data.ffill(inplace=True)\<close>: down each column, the last valid value seen so far is
  carried into the missing cells that follow it.
\<close>

fun ffill_from :: "'n cell \<Rightarrow> 'n cell list \<Rightarrow> 'n cell list" where
  "ffill_from last_valid [] = []"
| "ffill_from last_valid (x # xs) =
     (if x = NA then last_valid # ffill_from last_valid xs else x # ffill_from x xs)"

definition ffill :: "'n frame \<Rightarrow> 'n frame" where
  "ffill df = map (\<lambda>c. c\<lparr>cells := ffill_from NA (cells c)\<rparr>) df"

text \<open>
  \<^verbatim>\<open>data.dropna(inplace=True)\<close>: a mask over the rows says which have no missing cell
  (\<^verbatim>\<open>notna().all(axis=1)\<close>), and every column keeps the cells under the mask.
\<close>

definition row_mask :: "'n frame \<Rightarrow> bool list" where
  "row_mask df = map (\<lambda>i. list_all (\<lambda>c. cells c ! i \<noteq> NA) df) [0..<nrows df]"

definition take_mask :: "bool list \<Rightarrow> 'a list \<Rightarrow> 'a list" where
  "take_mask m xs = map fst (filter snd (zip xs m))"

definition dropna :: "'n frame \<Rightarrow> 'n frame" where
  "dropna df = map (\<lambda>c. c\<lparr>cells := take_mask (row_mask df) (cells c)\<rparr>) df"

text \<open>\<^verbatim>\<open>data.select_dtypes(include=...)\<close>: the columns of one type, in table order.\<close>

definition select_dtypes :: "dtype \<Rightarrow> 'n frame \<Rightarrow> 'n frame" where
  "select_dtypes include df = filter (\<lambda>c. dtype c = include) df"

subsection \<open>Exceptions, indexing and assignment\<close>

datatype py_error =
  ValueError | KeyError | StreamlitAPIException | StreamlitDataframeConversionError

text \<open>\<^verbatim>\<open>data[name]\<close> raises KeyError for a name that is not a column.\<close>

definition getitem :: "'n frame \<Rightarrow> string \<Rightarrow> py_error + 'n column" where
  "getitem df k = (case find (\<lambda>c. cname c = k) df of None \<Rightarrow> Inl KeyError | Some c \<Rightarrow> Inr c)"

text \<open>\<^verbatim>\<open>data[names]\<close>: the sub-table of the listed columns, KeyError if one is absent.\<close>

fun getitem_list :: "'n frame \<Rightarrow> string list \<Rightarrow> py_error + 'n frame" where
  "getitem_list df [] = Inr []"
| "getitem_list df (k # ks) =
     (case getitem df k of
        Inl e \<Rightarrow> Inl e
      | Inr c \<Rightarrow> (case getitem_list df ks of Inl e \<Rightarrow> Inl e | Inr cs \<Rightarrow> Inr (c # cs)))"

text \<open>\<^verbatim>\<open>data[name] = col\<close>: replaces the column of that name, or appends a new one.\<close>

definition setitem :: "'n frame \<Rightarrow> string \<Rightarrow> 'n column \<Rightarrow> 'n frame" where
  "setitem df k col =
     (if k \<in> set (columns df)
      then map (\<lambda>c. if cname c = k then col\<lparr>cname := k\<rparr> else c) df
      else df @ [col\<lparr>cname := k\<rparr>])"

subsection \<open>The libraries as parameters\<close>

text \<open>
  What the script leaves to its libraries is a parameter of the model: \<open>parse_num\<close> reads a
  string as a number or fails, \<open>show_num\<close> prints a number, \<open>num_of_bool\<close> is the number a
  boolean counts as. The last three say whether a rendering call accepts its argument:
  \<open>shows_table\<close> whether \<^verbatim>\<open>st.write\<close> can display a table, \<open>draws_lines\<close> whether
  \<^verbatim>\<open>st.line_chart\<close> can chart one, \<open>draws_histogram\<close> whether \<^verbatim>\<open>sns.histplot\<close> can bin
  a column into the given number of bins. A call that does not accept its argument raises.
\<close>

record 'n library =
  parse_num :: "string \<Rightarrow> 'n option"
  show_num :: "'n \<Rightarrow> string"
  num_of_bool :: "bool \<Rightarrow> 'n"
  shows_table :: "'n frame \<Rightarrow> bool"
  draws_lines :: "'n frame \<Rightarrow> bool"
  draws_histogram :: "'n column \<Rightarrow> nat \<Rightarrow> bool"

subsection \<open>Numeric conversion\<close>

datatype errors_mode = Raise | Coerce

definition parseable :: "'n library \<Rightarrow> 'n cell \<Rightarrow> bool" where
  "parseable L x = (case x of Str s \<Rightarrow> parse_num L s \<noteq> None | _ \<Rightarrow> True)"

definition numeric_cell :: "'n library \<Rightarrow> 'n cell \<Rightarrow> 'n cell" where
  "numeric_cell L x =
     (case x of
        Str s \<Rightarrow> (case parse_num L s of None \<Rightarrow> NA | Some n \<Rightarrow> Num n)
      | Flag b \<Rightarrow> Num (num_of_bool L b)
      | _ \<Rightarrow> x)"

definition is_flag :: "'n cell \<Rightarrow> bool" where
  "is_flag x = (case x of Flag b \<Rightarrow> True | _ \<Rightarrow> False)"

text \<open>A column that holds booleans and nothing else.\<close>

definition all_flags :: "'n cell list \<Rightarrow> bool" where
  "all_flags xs = (xs \<noteq> [] \<and> list_all is_flag xs)"

text \<open>
  \<^verbatim>\<open>pd.to_numeric(col, errors=...)\<close>. A column that is not of object type is returned as
  it is. In an object column, with \<^verbatim>\<open>errors='raise'\<close> a string that is not a number raises
  ValueError and with \<^verbatim>\<open>errors='coerce'\<close> it becomes NaN. The result is of type bool when
  the column holds booleans and nothing else, and a number column otherwise, in which a
  boolean counts as a number.
\<close>

definition to_numeric :: "'n library \<Rightarrow> errors_mode \<Rightarrow> 'n column \<Rightarrow> py_error + 'n column" where
  "to_numeric L errors col =
     (if dtype col \<noteq> ObjectT then Inr col
      else if errors = Raise \<and> \<not> list_all (parseable L) (cells col) then Inl ValueError
      else if all_flags (cells col) then Inr (col\<lparr>dtype := BoolT\<rparr>)
      else Inr (col\<lparr>dtype := NumberT, cells := map (numeric_cell L) (cells col)\<rparr>))"

text \<open>\<^verbatim>\<open>col.astype(str)\<close>: every cell as a string; NaN prints as \<^verbatim>\<open>nan\<close>.\<close>

definition astype_str :: "'n library \<Rightarrow> 'n column \<Rightarrow> 'n column" where
  "astype_str L col =
     col\<lparr>dtype := ObjectT,
         cells := map (\<lambda>x. case x of
                               NA \<Rightarrow> Str ''nan''
                             | Num n \<Rightarrow> Str (show_num L n)
                             | Flag b \<Rightarrow> Str (if b then ''True'' else ''False'')
                             | Str s \<Rightarrow> Str s)
                    (cells col)\<rparr>"

text \<open>
  The loop of lines 59--65 over the names of the object columns:
  \<^verbatim>\<open>
  for column in data.select_dtypes(include='object').columns:
      try:
          data[column] = pd.to_numeric(data[column], errors='coerce')
      except ValueError:
          data[column] = data[column].astype(str)
  \<close>
\<close>

fun coerce_loop :: "'n library \<Rightarrow> string list \<Rightarrow> 'n frame \<Rightarrow> py_error + 'n frame" where
  "coerce_loop L [] df = Inr df"
| "coerce_loop L (column # rest) df =
     (case getitem df column of
        Inl e \<Rightarrow> Inl e
      | Inr col \<Rightarrow>
          (case to_numeric L Coerce col of
             Inr num \<Rightarrow> coerce_loop L rest (setitem df column num)
           | Inl e \<Rightarrow>
               if e = ValueError
               then coerce_loop L rest (setitem df column (astype_str L col))
               else Inl e))"

definition coerce_objects :: "'n library \<Rightarrow> 'n frame \<Rightarrow> py_error + 'n frame" where
  "coerce_objects L df = coerce_loop L (columns (select_dtypes ObjectT df)) df"

section \<open>The page\<close>

text \<open>
  Every \<^verbatim>\<open>st.*\<close> call appends one element to the page. A run of the script is the list of
  elements it rendered, in order, and the exception that stopped it, if any.
  \<^verbatim>\<open>st.pyplot(fig)\<close> is recorded by what was drawn on the figure: a histogram of a column,
  the heatmap of \<^verbatim>\<open>corr()\<close> of a sub-table, a polar scatter of \<^verbatim>\<open>np.deg2rad\<close> of one
  column against another.
\<close>

datatype 'n element =
    Title string
  | Header string
  | Subheader string
  | FileUploader string
  | Write string
  | WriteTable "'n frame"
  | WriteShape string "nat \<times> nat"
  | WriteColumns string "string list"
  | WriteCounts "(string \<times> nat) list"
  | WriteDtypes "(string \<times> dtype) list"
  | Success string
  | Info string
  | Warning string
  | Radio string "string list"
  | Checkbox string
  | Multiselect string "string list" "string list"
  | Slider string nat nat nat
  | LineChart "'n frame"
  | HistPlot "'n column" nat
  | Heatmap "'n frame"
  | PolarScatter "'n column" "'n column"
  | Sidebar "'n element"

subsection \<open>What the user does with the widgets\<close>

datatype handle_choice = NoAction | ForwardFill | DropRows

text \<open>
  The state of the widgets on this run. A multiselect or slider the user has not touched
  (\<open>None\<close>) has its default value.
\<close>

record ui =
  handle_missing :: handle_choice
  clean_data :: bool
  selected_columns :: "string list option"
  bin_size :: "nat option"
  selected_corr_columns :: "string list option"

text \<open>
  \<^verbatim>\<open>st.multiselect(label, options, default=...)\<close>: Streamlit raises StreamlitAPIException
  when a default value is not among the options; otherwise the widget returns the selected
  options.
\<close>

definition multiselect :: "string list \<Rightarrow> string list \<Rightarrow> string list option \<Rightarrow> py_error + string list" where
  "multiselect options dflt picked =
     (if \<not> list_all (\<lambda>d. d \<in> set options) dflt then Inl StreamlitAPIException
      else Inr (case picked of None \<Rightarrow> dflt | Some sel \<Rightarrow> filter (\<lambda>c. c \<in> set options) sel))"

text \<open>\<^verbatim>\<open>st.slider(label, min_value, max_value, value)\<close> returns a value in range.\<close>

definition slider :: "nat \<Rightarrow> nat \<Rightarrow> nat \<Rightarrow> nat option \<Rightarrow> nat" where
  "slider lo hi dflt picked = (case picked of None \<Rightarrow> dflt | Some v \<Rightarrow> max lo (min hi v))"

section \<open>The script\<close>

text \<open>
  Each part of the script returns what it rendered and the exception that stopped it, if
  any; \<open>and_then\<close> runs the next part only when the one before it returned. \<open>render\<close> is a
  rendering call that may refuse its argument: it adds the element or raises.
\<close>

type_synonym 'n rendered = "'n element list \<times> py_error option"

definition and_then :: "'n rendered \<Rightarrow> 'n rendered \<Rightarrow> 'n rendered" where
  "and_then r1 r2 = (case snd r1 of Some e \<Rightarrow> r1 | None \<Rightarrow> (fst r1 @ fst r2, snd r2))"

definition render :: "bool \<Rightarrow> py_error \<Rightarrow> 'n element \<Rightarrow> 'n rendered" where
  "render accepted err e = (if accepted then ([e], None) else ([], Some err))"

subsection \<open>Data quality check (lines 33--52)\<close>

definition quality_check :: "'n frame \<Rightarrow> ui \<Rightarrow> 'n element list \<times> 'n frame" where
  "quality_check data u =
     (let missing_values = isnull_sum data in
      if sum_list (map snd missing_values) > 0 then
        (let shown =
            [Subheader ''Data Quality Check'',
             Write ''Missing values in each column:'',
             WriteCounts (filter (\<lambda>e. snd e > 0) missing_values),
             Radio ''Select how to handle missing values:''
               [''No action'', ''Forward fill'', ''Drop rows with missing values'']]
         in case handle_missing u of
              ForwardFill \<Rightarrow>
                (shown @ [Success ''Missing values filled using forward fill!''], ffill data)
            | DropRows \<Rightarrow>
                (shown @ [Success ''Rows with missing values have been dropped!''], dropna data)
            | NoAction \<Rightarrow> (shown, data))
      else
        ([Subheader ''Data Quality Check'', Write ''No missing values detected!''], data))"

subsection \<open>Cleaning section (lines 19--72)\<close>

text \<open>
  \<^verbatim>\<open>st.write(data.head())\<close> raises StreamlitDataframeConversionError for a table it
  cannot display, at line 25 and again at line 72.
\<close>

definition cleaned_preview :: "'n library \<Rightarrow> 'n frame \<Rightarrow> ui \<Rightarrow> 'n rendered" where
  "cleaned_preview L data u =
     and_then
       ([Sidebar (Header ''Cleaning Options''), Sidebar (Checkbox ''Show cleaned data'')], None)
       (if clean_data u then
          and_then ([Write ''### Cleaned Data Preview''], None)
            (render (shows_table L (head data)) StreamlitDataframeConversionError
               (WriteTable (head data)))
        else ([], None))"

definition cleaning_section :: "'n library \<Rightarrow> 'n frame \<Rightarrow> ui \<Rightarrow> 'n element list \<times> (py_error + 'n frame)" where
  "cleaning_section L data0 u =
     (if \<not> shows_table L (head data0) then
        ([Subheader ''Raw Data Preview''], Inl StreamlitDataframeConversionError)
      else
        (let overview =
               [Subheader ''Raw Data Preview'', WriteTable (head data0),
                Subheader ''Dataset Overview'',
                WriteShape ''Shape of the data:'' (shape data0),
                WriteColumns ''Columns in the dataset:'' (columns data0)];
             (quality, data1) = quality_check data0 u;
             types = [Subheader ''Column Data Types'', WriteDtypes (dtypes data1)]
         in case coerce_objects L data1 of
              Inl e \<Rightarrow> (overview @ quality @ types, Inl e)
            | Inr data2 \<Rightarrow>
                (case snd (cleaned_preview L data2 u) of
                   Some e \<Rightarrow>
                     (overview @ quality @ types @ fst (cleaned_preview L data2 u), Inl e)
                 | None \<Rightarrow>
                     (overview @ quality @ types @ fst (cleaned_preview L data2 u), Inr data2))))"

subsection \<open>Exploratory data analysis (lines 77--123)\<close>

text \<open>
  \<^verbatim>\<open>st.line_chart\<close> and \<^verbatim>\<open>sns.histplot\<close> raise ValueError for data they cannot draw.
\<close>

definition line_chart_block :: "'n library \<Rightarrow> 'n frame \<Rightarrow> ui \<Rightarrow> 'n rendered" where
  "line_chart_block L data u =
     (let numeric_columns = columns (select_dtypes NumberT data) in
      case multiselect numeric_columns [''GHI'', ''DNI'', ''DHI''] (selected_columns u) of
        Inl e \<Rightarrow> ([Subheader ''Solar Radiation Trends''], Some e)
      | Inr sel \<Rightarrow>
          (let shown =
              [Subheader ''Solar Radiation Trends'',
               Multiselect ''Select columns for line chart:'' numeric_columns [''GHI'', ''DNI'', ''DHI'']]
           in if sel \<noteq> [] then
                (case getitem_list data sel of
                   Inl e \<Rightarrow> (shown, Some e)
                 | Inr sub \<Rightarrow>
                     and_then (shown, None) (render (draws_lines L sub) ValueError (LineChart sub)))
              else
                (shown @ [Warning ''Please select at least one column for the line chart.''], None)))"

definition histogram_block :: "'n library \<Rightarrow> 'n frame \<Rightarrow> ui \<Rightarrow> 'n rendered" where
  "histogram_block L data u =
     (if ''GHI'' \<in> set (columns data) then
        (let shown =
            [Subheader ''Histogram for Global Horizontal Irradiance (GHI)'',
             Slider ''Select number of bins:'' 5 50 20];
             bins = slider 5 50 20 (bin_size u)
         in case getitem data ''GHI'' of
              Inl e \<Rightarrow> (shown, Some e)
            | Inr ghi \<Rightarrow>
                and_then (shown, None)
                  (render (draws_histogram L ghi bins) ValueError (HistPlot ghi bins)))
      else ([Warning ''GHI column is missing in the dataset!''], None))"

definition correlation_block :: "'n frame \<Rightarrow> ui \<Rightarrow> 'n rendered" where
  "correlation_block data u =
     (let numeric_columns = columns (select_dtypes NumberT data) in
      case multiselect numeric_columns numeric_columns (selected_corr_columns u) of
        Inl e \<Rightarrow> ([Subheader ''Correlation Analysis''], Some e)
      | Inr sel \<Rightarrow>
          (let shown =
              [Subheader ''Correlation Analysis'',
               Multiselect ''Select numeric columns for correlation matrix:''
                 numeric_columns numeric_columns]
           in if sel \<noteq> [] then
                (case getitem_list data sel of
                   Inl e \<Rightarrow> (shown, Some e)
                 | Inr sub \<Rightarrow> (shown @ [Heatmap sub], None))
              else
                (shown @ [Warning ''Please select at least one column for correlation analysis.''],
                 None)))"

definition wind_block :: "'n frame \<Rightarrow> 'n rendered" where
  "wind_block data =
     (if ''WD'' \<in> set (columns data) \<and> ''WS'' \<in> set (columns data) then
        (case getitem data ''WD'' of
           Inl e \<Rightarrow> ([Subheader ''Wind Analysis''], Some e)
         | Inr wd \<Rightarrow>
             (case getitem data ''WS'' of
                Inl e \<Rightarrow> ([Subheader ''Wind Analysis''], Some e)
              | Inr ws \<Rightarrow> ([Subheader ''Wind Analysis'', PolarScatter wd ws], None)))
      else ([Warning ''Wind direction (WD) or speed (WS) columns are missing!''], None))"

definition eda_section :: "'n library \<Rightarrow> 'n frame \<Rightarrow> ui \<Rightarrow> 'n rendered" where
  "eda_section L data u =
     and_then ([Header ''Exploratory Data Analysis (EDA)''], None)
       (and_then (line_chart_block L data u)
         (and_then (histogram_block L data u)
           (and_then (correlation_block data u) (wind_block data))))"

subsection \<open>The whole script\<close>

definition banner :: "'n element list" where
  "banner =
     [Title ''Solar Farm Data Analysis Dashboard'',
      Header ''Data Understanding and Cleaning'',
      FileUploader ''Upload CSV File for Analysis'']"

definition about :: "'n element list" where
  "about =
     [Sidebar (Write ''### About''),
      Sidebar (Info ''This dashboard allows users to perform data cleaning and exploratory data analysis on solar farm data.'')]"

text \<open>
  \<open>uploaded_file\<close> is \<open>None\<close> before an upload, and otherwise the table that
  \<^verbatim>\<open>pd.read_csv\<close> made of the file. An exception ends the run where it is raised.
\<close>

definition run :: "'n library \<Rightarrow> 'n frame option \<Rightarrow> ui \<Rightarrow> 'n rendered" where
  "run L uploaded_file u =
     (case uploaded_file of
        None \<Rightarrow>
          (banner @
           [Info ''Awaiting CSV file upload for cleaning and analysis.'',
            Info ''Upload a dataset to unlock EDA features.''] @ about, None)
      | Some data0 \<Rightarrow>
          (case cleaning_section L data0 u of
             (shown, Inl e) \<Rightarrow> (banner @ shown, Some e)
           | (shown, Inr data) \<Rightarrow>
               and_then (and_then (banner @ shown, None) (eda_section L data u)) (about, None)))"

text \<open>The table as the charts see it: after the optional fill or drop and the coercion.\<close>

definition cleaned :: "'n library \<Rightarrow> 'n frame \<Rightarrow> ui \<Rightarrow> py_error + 'n frame" where
  "cleaned L data0 u = snd (cleaning_section L data0 u)"



section \<open>A concrete library\<close>

text \<open>
  To run the model on concrete tables the parameters are instantiated for whole numbers.
  The parser reads decimal integer literals: an optional minus sign and digits. The three
  rendering conditions stand in for the real libraries' behaviour on whole numbers:
  \<^item> a table is displayed unless an object column holds integers that fit neither the
    signed nor the unsigned 64-bit range;
  \<^item> a line chart is drawn unless a column name holds a colon;
  \<^item> a histogram is drawn when the bins are wider than the spacing of 64-bit floats at
    the size of the data, taken as the largest magnitude divided by \<open>2 ^ 52\<close>.
  The real libraries read more strings as numbers and decide in floating point; the general
  theorems below hold for every library.
\<close>

definition is_digit :: "char \<Rightarrow> bool" where
  "is_digit c = (48 \<le> (of_char c :: nat) \<and> (of_char c :: nat) \<le> 57)"

fun parse_digits :: "nat \<Rightarrow> string \<Rightarrow> nat option" where
  "parse_digits acc [] = Some acc"
| "parse_digits acc (c # cs) =
     (if is_digit c then parse_digits (10 * acc + (of_char c - 48)) cs else None)"

definition parse_decimal :: "string \<Rightarrow> int option" where
  "parse_decimal s =
     (case s of
        [] \<Rightarrow> None
      | c # cs \<Rightarrow>
          if c = CHR ''-'' then (if cs = [] then None else map_option (\<lambda>n. - int n) (parse_digits 0 cs))
          else map_option int (parse_digits 0 s))"

function show_nat :: "nat \<Rightarrow> string" where
  "show_nat n =
     (if n < 10 then [char_of (48 + n)] else show_nat (n div 10) @ [char_of (48 + n mod 10)])"
  by pat_completeness auto
termination
  by (relation "measure id") auto

definition show_decimal :: "int \<Rightarrow> string" where
  "show_decimal i = (if i < 0 then CHR ''-'' # show_nat (nat (- i)) else show_nat (nat i))"

text \<open>The integers of a column, and its numbers with booleans counted as 0 and 1.\<close>

definition cell_ints :: "int cell list \<Rightarrow> int list" where
  "cell_ints xs = concat (map (\<lambda>x. case x of Num n \<Rightarrow> [n] | _ \<Rightarrow> []) xs)"

definition cell_values :: "int cell list \<Rightarrow> int list" where
  "cell_values xs =
     concat (map (\<lambda>x. case x of Num n \<Rightarrow> [n] | Flag b \<Rightarrow> [of_bool b] | _ \<Rightarrow> []) xs)"

definition fits_int64 :: "int \<Rightarrow> bool" where
  "fits_int64 n = (- (2 ^ 63) \<le> n \<and> n < 2 ^ 63)"

definition fits_uint64 :: "int \<Rightarrow> bool" where
  "fits_uint64 n = (0 \<le> n \<and> n < 2 ^ 64)"

definition shows_decimal_table :: "int frame \<Rightarrow> bool" where
  "shows_decimal_table df =
     list_all
       (\<lambda>c. if dtype c = ObjectT
             then list_all fits_int64 (cell_ints (cells c)) \<or>
                  list_all fits_uint64 (cell_ints (cells c))
             else True)
       df"

definition draws_decimal_lines :: "int frame \<Rightarrow> bool" where
  "draws_decimal_lines sub = list_all (\<lambda>c. CHR '':'' \<notin> set (cname c)) sub"

definition draws_decimal_histogram :: "int column \<Rightarrow> nat \<Rightarrow> bool" where
  "draws_decimal_histogram col bins =
     (case cell_values (cells col) of
        [] \<Rightarrow> True
      | v # vs \<Rightarrow>
          (let lo = fold min vs v;
               hi = fold max vs v;
               width = (if lo = hi then 1 else hi - lo);
               magnitude = max \<bar>lo\<bar> \<bar>hi\<bar>
           in magnitude * int bins < width * 2 ^ 52))"

definition decimal_lib :: "int library" where
  "decimal_lib =
     \<lparr>parse_num = parse_decimal, show_num = show_decimal, num_of_bool = of_bool,
      shows_table = shows_decimal_table, draws_lines = draws_decimal_lines,
      draws_histogram = draws_decimal_histogram\<rparr>"

text \<open>The widgets as they are when the page is first shown.\<close>

definition untouched :: ui where
  "untouched =
     \<lparr>handle_missing = NoAction, clean_data = False, selected_columns = None,
      bin_size = None, selected_corr_columns = None\<rparr>"

section \<open>Descriptions used in the statements\<close>

text \<open>
  What the coercion loop is expected to leave in a column. A column that is not of object
  type is kept. An object column that holds booleans and nothing else becomes a bool
  column. Any other object column becomes a number column in which every string that is no
  number is missing and a boolean counts as a number.
\<close>

definition coerced_column :: "'n library \<Rightarrow> 'n column \<Rightarrow> 'n column" where
  "coerced_column L c =
     (if dtype c \<noteq> ObjectT then c
      else if all_flags (cells c) then c\<lparr>dtype := BoolT\<rparr>
      else c\<lparr>dtype := NumberT, cells := map (numeric_cell L) (cells c)\<rparr>)"

text \<open>Some cell of the table is missing.\<close>

definition has_missing :: "'n frame \<Rightarrow> bool" where
  "has_missing df = list_ex (\<lambda>c. NA \<in> set (cells c)) df"

text \<open>
  The columns that have a missing cell, in table order, each with the number of its
  missing cells.
\<close>

definition missing_report :: "'n frame \<Rightarrow> (string \<times> nat) list" where
  "missing_report df =
     map (\<lambda>c. (cname c, count_list (cells c) NA)) (filter (\<lambda>c. NA \<in> set (cells c)) df)"

text \<open>
  The most recent valid value before position \<open>i\<close> of a column: the first valid cell met
  going back from \<open>i\<close>, if there is one.
\<close>

definition preceding_valid :: "'n cell list \<Rightarrow> nat \<Rightarrow> 'n cell option" where
  "preceding_valid xs i = find (\<lambda>x. x \<noteq> NA) (rev (take i xs))"

text \<open>The positions of the rows that have no missing cell, in increasing order.\<close>

definition complete_rows :: "'n frame \<Rightarrow> nat list" where
  "complete_rows df = filter (\<lambda>i. list_all (\<lambda>c. cells c ! i \<noteq> NA) df) [0..<nrows df]"

text \<open>The columns a chart element draws; elements that are no chart draw none.\<close>

definition chart_columns :: "'n element \<Rightarrow> 'n column list" where
  "chart_columns e =
     (case e of
        LineChart sub \<Rightarrow> sub
      | HistPlot c n \<Rightarrow> [c]
      | Heatmap sub \<Rightarrow> sub
      | PolarScatter wd ws \<Rightarrow> [wd, ws]
      | _ \<Rightarrow> [])"

text \<open>
  A block indexed only existing columns: it did not stop with KeyError, and every chart it
  rendered draws columns of the table.
\<close>

definition indexes_existing :: "'n frame \<Rightarrow> 'n rendered \<Rightarrow> bool" where
  "indexes_existing data r =
     (snd r \<noteq> Some KeyError \<and>
      list_all (\<lambda>e. list_all (\<lambda>c. c \<in> set data) (chart_columns e)) (fst r))"


subsection \<open>The page the spec describes\<close>

text \<open>
  The table after the optional fill or drop, which is applied to the table as loaded, and
  the table after coercion, which is applied to the result.
\<close>

definition handled :: "'n frame \<Rightarrow> ui \<Rightarrow> 'n frame" where
  "handled data0 u =
     (if has_missing data0
      then (case handle_missing u of
              NoAction \<Rightarrow> data0
            | ForwardFill \<Rightarrow> ffill data0
            | DropRows \<Rightarrow> dropna data0)
      else data0)"

definition coerced :: "'n library \<Rightarrow> 'n frame \<Rightarrow> ui \<Rightarrow> 'n frame" where
  "coerced L data0 u = map (coerced_column L) (handled data0 u)"

text \<open>The columns of a given name, and what a multiselect holds.\<close>

definition named :: "'n frame \<Rightarrow> string \<Rightarrow> 'n column list" where
  "named data k = filter (\<lambda>c. cname c = k) data"

definition selection :: "string list \<Rightarrow> string list \<Rightarrow> string list option \<Rightarrow> string list" where
  "selection options dflt picked =
     (case picked of None \<Rightarrow> dflt | Some sel \<Rightarrow> filter (\<lambda>c. c \<in> set options) sel)"

text \<open>
  The steps of the spec, each with the elements it puts on the page and the table it
  reads: the preview and overview of the table as loaded; the missing-value report on the
  table as loaded; the column types of the table after the fill or drop; the optional
  preview of the coerced table; the four chart sections on the coerced table.
\<close>

definition page_load :: "'n frame \<Rightarrow> 'n element list" where
  "page_load data0 =
     [Title ''Solar Farm Data Analysis Dashboard'',
      Header ''Data Understanding and Cleaning'',
      FileUploader ''Upload CSV File for Analysis'',
      Subheader ''Raw Data Preview'', WriteTable (head data0)]"

definition page_overview :: "'n frame \<Rightarrow> 'n element list" where
  "page_overview data0 =
     [Subheader ''Dataset Overview'',
      WriteShape ''Shape of the data:'' (shape data0),
      WriteColumns ''Columns in the dataset:'' (columns data0)]"

definition page_missing :: "'n frame \<Rightarrow> ui \<Rightarrow> 'n element list" where
  "page_missing data0 u =
     (if has_missing data0
      then [Subheader ''Data Quality Check'',
            Write ''Missing values in each column:'',
            WriteCounts (missing_report data0),
            Radio ''Select how to handle missing values:''
              [''No action'', ''Forward fill'', ''Drop rows with missing values'']] @
           (case handle_missing u of
              NoAction \<Rightarrow> []
            | ForwardFill \<Rightarrow> [Success ''Missing values filled using forward fill!'']
            | DropRows \<Rightarrow> [Success ''Rows with missing values have been dropped!''])
      else [Subheader ''Data Quality Check'', Write ''No missing values detected!''])"

definition page_types :: "'n frame \<Rightarrow> 'n element list" where
  "page_types data1 = [Subheader ''Column Data Types'', WriteDtypes (dtypes data1)]"

definition page_preview :: "'n frame \<Rightarrow> ui \<Rightarrow> 'n element list" where
  "page_preview data2 u =
     [Sidebar (Header ''Cleaning Options''), Sidebar (Checkbox ''Show cleaned data'')] @
     (if clean_data u then [Write ''### Cleaned Data Preview'', WriteTable (head data2)] else [])"

definition page_lines :: "'n frame \<Rightarrow> ui \<Rightarrow> 'n element list" where
  "page_lines data2 u =
     (let numeric = columns (select_dtypes NumberT data2);
          sel = selection numeric [''GHI'', ''DNI'', ''DHI''] (selected_columns u)
      in [Subheader ''Solar Radiation Trends'',
          Multiselect ''Select columns for line chart:'' numeric [''GHI'', ''DNI'', ''DHI'']] @
         (if sel \<noteq> [] then [LineChart (concat (map (named data2) sel))]
          else [Warning ''Please select at least one column for the line chart.'']))"

definition page_histogram :: "'n frame \<Rightarrow> ui \<Rightarrow> 'n element list" where
  "page_histogram data2 u =
     (if ''GHI'' \<in> set (columns data2)
      then [Subheader ''Histogram for Global Horizontal Irradiance (GHI)'',
            Slider ''Select number of bins:'' 5 50 20] @
           map (\<lambda>ghi. HistPlot ghi (case bin_size u of None \<Rightarrow> 20 | Some v \<Rightarrow> max 5 (min 50 v)))
             (named data2 ''GHI'')
      else [Warning ''GHI column is missing in the dataset!''])"

definition page_correlation :: "'n frame \<Rightarrow> ui \<Rightarrow> 'n element list" where
  "page_correlation data2 u =
     (let numeric = columns (select_dtypes NumberT data2);
          sel = selection numeric numeric (selected_corr_columns u)
      in [Subheader ''Correlation Analysis'',
          Multiselect ''Select numeric columns for correlation matrix:'' numeric numeric] @
         (if sel \<noteq> [] then [Heatmap (concat (map (named data2) sel))]
          else [Warning ''Please select at least one column for correlation analysis.'']))"

definition page_wind :: "'n frame \<Rightarrow> 'n element list" where
  "page_wind data2 =
     (if ''WD'' \<in> set (columns data2) \<and> ''WS'' \<in> set (columns data2)
      then Subheader ''Wind Analysis'' #
           concat (map (\<lambda>wd. map (PolarScatter wd) (named data2 ''WS'')) (named data2 ''WD''))
      else [Warning ''Wind direction (WD) or speed (WS) columns are missing!''])"

definition page_about :: "'n element list" where
  "page_about =
     [Sidebar (Write ''### About''),
      Sidebar (Info ''This dashboard allows users to perform data cleaning and exploratory data analysis on solar farm data.'')]"

text \<open>The whole page, in the order of the spec.\<close>

definition expected_page :: "'n library \<Rightarrow> 'n frame \<Rightarrow> ui \<Rightarrow> 'n element list" where
  "expected_page L data0 u =
     page_load data0 @ page_overview data0 @ page_missing data0 u @
     page_types (handled data0 u) @ page_preview (coerced L data0 u) u @
     [Header ''Exploratory Data Analysis (EDA)''] @
     page_lines (coerced L data0 u) u @ page_histogram (coerced L data0 u) u @
     page_correlation (coerced L data0 u) u @ page_wind (coerced L data0 u) @ page_about"

text \<open>
  A part of the script follows its description: what it rendered is the description when
  it returned, and a beginning of it when it raised.
\<close>

definition follows :: "'n rendered \<Rightarrow> 'n element list \<Rightarrow> bool" where
  "follows r expected = (if snd r = None then fst r = expected else prefix (fst r) expected)"

section \<open>Example tables and widget states\<close>

text \<open>A table with one text column, one of whose entries is no number.\<close>

definition labels :: "int frame" where
  "labels = [\<lparr>cname = ''site'', dtype = ObjectT, cells = [Str ''north'', Str ''12'']\<rparr>]"

text \<open>A table with wind columns and no irradiance column.\<close>

definition wind_only :: "int frame" where
  "wind_only =
     [\<lparr>cname = ''WD'', dtype = NumberT, cells = [Num 90, Num 180]\<rparr>,
      \<lparr>cname = ''WS'', dtype = NumberT, cells = [Num 3, Num 4]\<rparr>]"

text \<open>
  A table whose only column is text with a gap; its first entry is no number.
\<close>

definition remarks :: "'n frame" where
  "remarks = [\<lparr>cname = ''GHI'', dtype = ObjectT, cells = [Str ''unknown'', NA]\<rparr>]"

text \<open>A table whose first cell is missing.\<close>

definition leading_gap :: "int frame" where
  "leading_gap = [\<lparr>cname = ''GHI'', dtype = NumberT, cells = [NA, Num 5]\<rparr>]"

text \<open>A table with a gap in the middle of one column and at the end of another.\<close>

definition gaps :: "int frame" where
  "gaps =
     [\<lparr>cname = ''GHI'', dtype = NumberT, cells = [Num 1, NA, Num 3]\<rparr>,
      \<lparr>cname = ''site'', dtype = ObjectT, cells = [Str ''a'', Str ''b'', NA]\<rparr>]"

text \<open>
  A table with the three irradiance columns, a gap in GHI and a DHI column read as text
  whose last entry is no number.
\<close>

definition readings :: "int frame" where
  "readings =
     [\<lparr>cname = ''GHI'', dtype = NumberT, cells = [Num 1, NA, Num 3]\<rparr>,
      \<lparr>cname = ''DNI'', dtype = NumberT, cells = [Num 4, Num 5, Num 6]\<rparr>,
      \<lparr>cname = ''DHI'', dtype = ObjectT, cells = [Str ''7'', Str ''8'', Str ''x'']\<rparr>]"

text \<open>A table with the three irradiance columns and the two wind columns.\<close>

definition station :: "int frame" where
  "station =
     [\<lparr>cname = ''GHI'', dtype = NumberT, cells = [Num 10, Num 20]\<rparr>,
      \<lparr>cname = ''DNI'', dtype = NumberT, cells = [Num 1, Num 2]\<rparr>,
      \<lparr>cname = ''DHI'', dtype = NumberT, cells = [Num 3, Num 4]\<rparr>,
      \<lparr>cname = ''WD'', dtype = NumberT, cells = [Num 90, Num 180]\<rparr>,
      \<lparr>cname = ''WS'', dtype = NumberT, cells = [Num 5, Num 6]\<rparr>]"

text \<open>
  A table with a text column of booleans with a gap: after the rows with missing values
  are dropped the column holds booleans only.
\<close>

definition switches :: "int frame" where
  "switches =
     [\<lparr>cname = ''on'', dtype = ObjectT, cells = [Flag True, NA, Flag False]\<rparr>,
      \<lparr>cname = ''site'', dtype = ObjectT, cells = [Str ''north'', Str ''12'', Str ''7'']\<rparr>]"

text \<open>The user picks "Drop rows with missing values" and touches nothing else.\<close>

definition drop_rows :: ui where
  "drop_rows = untouched\<lparr>handle_missing := DropRows\<rparr>"

text \<open>The user picks "Forward fill" and touches nothing else.\<close>

definition forward_fill :: ui where
  "forward_fill = untouched\<lparr>handle_missing := ForwardFill\<rparr>"

text \<open>The user picks "Drop rows with missing values" and ticks "Show cleaned data".\<close>

definition drop_and_preview :: ui where
  "drop_and_preview = untouched\<lparr>handle_missing := DropRows, clean_data := True\<rparr>"

section \<open>Indexing and the coercion loop\<close>

lemma to_numeric_coerce: "to_numeric L Coerce col = Inr (coerced_column L col)"
  by (simp add: to_numeric_def coerced_column_def)

lemma getitem_present:
  "distinct (map cname df) \<Longrightarrow> c \<in> set df \<Longrightarrow> getitem df (cname c) = Inr c"
proof (induction df)
  case Nil
  then show ?case by simp
next
  case (Cons a df)
  show ?case
  proof (cases "c = a")
    case True
    then show ?thesis by (simp add: getitem_def)
  next
    case False
    with Cons.prems have in_tl: "c \<in> set df" by simp
    with Cons.prems have "cname a \<noteq> cname c" by auto
    moreover from Cons have "getitem df (cname c) = Inr c" using in_tl by simp
    ultimately show ?thesis by (simp add: getitem_def)
  qed
qed

lemma find_in_set: "find P xs = Some x \<Longrightarrow> x \<in> set xs \<and> P x"
  by (induction xs) (auto split: if_splits)

lemma getitem_Inr: "getitem df k = Inr c \<Longrightarrow> c \<in> set df \<and> cname c = k"
  using find_in_set [of "\<lambda>c. cname c = k" df c]
  by (simp add: getitem_def split: option.splits)

lemma same_name_same_column:
  assumes "distinct (map cname df)" and "c \<in> set df" and "x \<in> set df"
    and "cname x = cname c"
  shows "x = c"
proof -
  from assms(1) have "inj_on cname (set df)" by (simp add: distinct_map)
  from this assms(4) assms(3) assms(2) show ?thesis by (rule inj_onD)
qed

lemma setitem_replace:
  "k \<in> set (columns df) \<Longrightarrow> cname col = k \<Longrightarrow>
   setitem df k col = map (\<lambda>x. if cname x = k then col else x) df"
  by (simp add: setitem_def)

lemma cname_coerced_column: "cname (coerced_column L c) = cname c"
  by (simp add: coerced_column_def)

lemma coerced_column_other: "dtype c \<noteq> ObjectT \<Longrightarrow> coerced_column L c = c"
  by (simp add: coerced_column_def)

lemma coerce_step:
  assumes "distinct (map cname df)" and "c \<in> set df"
  shows "setitem df (cname c) (coerced_column L c) =
         map (\<lambda>x. if cname x = cname c then coerced_column L x else x) df"
proof -
  have "cname c \<in> set (columns df)" using assms(2) by (simp add: columns_def)
  then have "setitem df (cname c) (coerced_column L c) =
      map (\<lambda>x. if cname x = cname c then coerced_column L c else x) df"
    by (rule setitem_replace) (rule cname_coerced_column)
  also have "\<dots> = map (\<lambda>x. if cname x = cname c then coerced_column L x else x) df"
  proof (rule map_cong [OF refl])
    fix x assume x: "x \<in> set df"
    show "(if cname x = cname c then coerced_column L c else x) =
          (if cname x = cname c then coerced_column L x else x)"
    proof (cases "cname x = cname c")
      case True
      with assms x have "x = c" by (rule same_name_same_column)
      then show ?thesis by simp
    next
      case False
      then show ?thesis by simp
    qed
  qed
  finally show ?thesis .
qed

lemma coerce_loop_map:
  "distinct (map cname df) \<Longrightarrow> distinct ks \<Longrightarrow> set ks \<subseteq> set (map cname df) \<Longrightarrow>
   coerce_loop L ks df =
     Inr (map (\<lambda>c. if cname c \<in> set ks then coerced_column L c else c) df)"
proof (induction ks arbitrary: df)
  case Nil
  then show ?case by simp
next
  case (Cons k ks)
  from Cons.prems(3) have "k \<in> set (map cname df)" by simp
  then obtain c where c: "c \<in> set df" "cname c = k" by auto
  from Cons.prems(1) c(1) have "getitem df (cname c) = Inr c" by (rule getitem_present)
  then have g: "getitem df k = Inr c" using c(2) by simp
  let ?df1 = "map (\<lambda>x. if cname x = k then coerced_column L x else x) df"
  have s: "setitem df k (coerced_column L c) = ?df1"
    using coerce_step [OF Cons.prems(1) c(1), of L] c(2) by simp
  have names: "map cname ?df1 = map cname df"
    by (simp add: cname_coerced_column cong: map_cong)
  have d1: "distinct (map cname ?df1)" unfolding names by (rule Cons.prems(1))
  have d2: "distinct ks" using Cons.prems(2) by simp
  have d3: "set ks \<subseteq> set (map cname ?df1)" unfolding names using Cons.prems(3) by simp
  have ih: "coerce_loop L ks ?df1 =
     Inr (map (\<lambda>c. if cname c \<in> set ks then coerced_column L c else c) ?df1)"
    using d1 d2 d3 by (rule Cons.IH)
  have knot: "k \<notin> set ks" using Cons.prems(2) by simp
  have fuse: "map (\<lambda>c. if cname c \<in> set ks then coerced_column L c else c) ?df1 =
     map (\<lambda>c. if cname c \<in> set (k # ks) then coerced_column L c else c) df"
    using knot by (simp add: cname_coerced_column)
  have "coerce_loop L (k # ks) df = coerce_loop L ks (setitem df k (coerced_column L c))"
    by (simp add: g to_numeric_coerce)
  then show ?case using s ih fuse by simp
qed

lemma coerce_objects_map:
  assumes "distinct (map cname df)"
  shows "coerce_objects L df = Inr (map (coerced_column L) df)"
proof -
  let ?ks = "columns (select_dtypes ObjectT df)"
  have d: "distinct ?ks" using assms
    by (simp add: columns_def select_dtypes_def distinct_map_filter)
  have sub: "set ?ks \<subseteq> set (map cname df)" by (auto simp: columns_def select_dtypes_def)
  have mem: "(cname c \<in> set ?ks) = (dtype c = ObjectT)" if c: "c \<in> set df" for c
  proof
    assume "cname c \<in> set ?ks"
    then obtain x where x: "x \<in> set df" "dtype x = ObjectT" "cname x = cname c"
      by (auto simp: columns_def select_dtypes_def)
    from assms c x(1) x(3) have "x = c" by (rule same_name_same_column)
    with x(2) show "dtype c = ObjectT" by simp
  next
    assume "dtype c = ObjectT"
    with c show "cname c \<in> set ?ks" by (auto simp: columns_def select_dtypes_def)
  qed
  have "coerce_objects L df =
      Inr (map (\<lambda>c. if cname c \<in> set ?ks then coerced_column L c else c) df)"
    unfolding coerce_objects_def using assms d sub by (rule coerce_loop_map)
  also have "map (\<lambda>c. if cname c \<in> set ?ks then coerced_column L c else c) df =
       map (coerced_column L) df"
    by (rule map_cong [OF refl]) (simp add: mem coerced_column_other)
  finally show ?thesis .
qed

lemma numeric_cell_not_Str: "numeric_cell L x \<noteq> Str s"
  by (simp add: numeric_cell_def split: cell.splits option.splits)

lemma numeric_cells_no_Str: "Str s \<notin> set (map (numeric_cell L) xs)"
proof
  assume "Str s \<in> set (map (numeric_cell L) xs)"
  then obtain x where "numeric_cell L x = Str s" by auto
  then show False by (simp add: numeric_cell_not_Str)
qed

lemma numeric_cell_unparsed: "parse_num L s = None \<Longrightarrow> numeric_cell L (Str s) = NA"
  by (simp add: numeric_cell_def)

lemma all_flags_no_Str: "all_flags xs \<Longrightarrow> Str s \<notin> set xs"
  by (auto simp: all_flags_def list_all_iff is_flag_def)

lemma coerced_cells_no_Str:
  assumes "dtype c = ObjectT"
  shows "Str s \<notin> set (cells (coerced_column L c))"
proof (cases "all_flags (cells c)")
  case True
  then have "Str s \<notin> set (cells c)" by (rule all_flags_no_Str)
  with True assms show ?thesis by (simp add: coerced_column_def)
next
  case False
  with assms numeric_cells_no_Str [of s L "cells c"] show ?thesis
    by (simp add: coerced_column_def)
qed

lemma coerced_unparsed:
  assumes "dtype c = ObjectT" and "i < length (cells c)" and "cells c ! i = Str s"
    and "parse_num L s = None"
  shows "dtype (coerced_column L c) = NumberT \<and> cells (coerced_column L c) ! i = NA"
proof -
  from assms(2,3) have "Str s \<in> set (cells c)" by (metis nth_mem)
  then have "\<not> all_flags (cells c)" using all_flags_no_Str by blast
  with assms show ?thesis by (simp add: coerced_column_def numeric_cell_unparsed)
qed

lemma coerced_dtype: "dtype (coerced_column L c) \<noteq> ObjectT"
  by (simp add: coerced_column_def)

section \<open>Coercion of object columns\<close>

text \<open>
  C9. The \<^verbatim>\<open>except ValueError\<close> branch of the coercion loop is unreachable:
  \<^verbatim>\<open>pd.to_numeric\<close> with \<^verbatim>\<open>errors='coerce'\<close> raises nothing, so for every loaded table the
  loop returns and the \<^verbatim>\<open>astype(str)\<close> fallback leaves no trace: no object column is left
  of object type, no cell of it is a string, and every entry that is no number is missing
  in a column of number type.
\<close>

theorem coercion_never_falls_back:
  fixes L :: "'n library"
  assumes "wf_frame df"
  shows "(\<forall>col e. to_numeric L Coerce col \<noteq> Inl e) \<and>
         coerce_objects L df = Inr (map (coerced_column L) df) \<and>
         (\<forall>c \<in> set df. dtype c = ObjectT \<longrightarrow>
            dtype (coerced_column L c) \<noteq> ObjectT \<and>
            (\<forall>s. Str s \<notin> set (cells (coerced_column L c))) \<and>
            (\<forall>i < length (cells c). \<forall>s. cells c ! i = Str s \<and> parse_num L s = None \<longrightarrow>
               dtype (coerced_column L c) = NumberT \<and> cells (coerced_column L c) ! i = NA))"
proof (intro conjI ballI impI allI)
  fix col e
  show "to_numeric L Coerce col \<noteq> Inl e" by (simp add: to_numeric_coerce)
next
  show "coerce_objects L df = Inr (map (coerced_column L) df)"
    using assms by (simp add: wf_frame_def coerce_objects_map)
next
  fix c :: "'n column"
  show "dtype (coerced_column L c) \<noteq> ObjectT" by (rule coerced_dtype)
next
  fix c :: "'n column" and s assume "dtype c = ObjectT"
  then show "Str s \<notin> set (cells (coerced_column L c))" by (rule coerced_cells_no_Str)
next
  fix c :: "'n column" and i s
  assume "dtype c = ObjectT" "i < length (cells c)" "cells c ! i = Str s \<and> parse_num L s = None"
  then show "dtype (coerced_column L c) = NumberT" using coerced_unparsed by blast
next
  fix c :: "'n column" and i s
  assume "dtype c = ObjectT" "i < length (cells c)" "cells c ! i = Str s \<and> parse_num L s = None"
  then show "cells (coerced_column L c) ! i = NA" using coerced_unparsed by blast
qed

theorem coercion_never_falls_back_witness:
  "wf_frame switches \<and>
   coerce_objects decimal_lib switches =
     Inr [\<lparr>cname = ''on'', dtype = NumberT, cells = [Num 1, NA, Num 0]\<rparr>,
          \<lparr>cname = ''site'', dtype = NumberT, cells = [NA, Num 12, Num 7]\<rparr>] \<and>
   coerce_objects decimal_lib (dropna switches) =
     Inr [\<lparr>cname = ''on'', dtype = BoolT, cells = [Flag True, Flag False]\<rparr>,
          \<lparr>cname = ''site'', dtype = NumberT, cells = [NA, Num 7]\<rparr>]"
proof -
  have wf: "wf_frame switches" by code_simp
  have wf': "wf_frame (dropna switches)" by code_simp
  have val: "map (coerced_column decimal_lib) switches =
     [\<lparr>cname = ''on'', dtype = NumberT, cells = [Num 1, NA, Num 0]\<rparr>,
      \<lparr>cname = ''site'', dtype = NumberT, cells = [NA, Num 12, Num 7]\<rparr>]"
    by code_simp
  have val': "map (coerced_column decimal_lib) (dropna switches) =
     [\<lparr>cname = ''on'', dtype = BoolT, cells = [Flag True, Flag False]\<rparr>,
      \<lparr>cname = ''site'', dtype = NumberT, cells = [NA, Num 7]\<rparr>]"
    by code_simp
  have "coerce_objects decimal_lib switches = Inr (map (coerced_column decimal_lib) switches)"
    using coercion_never_falls_back [OF wf, of decimal_lib] by (elim conjE)
  then have a: "coerce_objects decimal_lib switches =
     Inr [\<lparr>cname = ''on'', dtype = NumberT, cells = [Num 1, NA, Num 0]\<rparr>,
          \<lparr>cname = ''site'', dtype = NumberT, cells = [NA, Num 12, Num 7]\<rparr>]"
    unfolding val .
  have "coerce_objects decimal_lib (dropna switches) =
      Inr (map (coerced_column decimal_lib) (dropna switches))"
    using coercion_never_falls_back [OF wf', of decimal_lib] by (elim conjE)
  then have b: "coerce_objects decimal_lib (dropna switches) =
     Inr [\<lparr>cname = ''on'', dtype = BoolT, cells = [Flag True, Flag False]\<rparr>,
          \<lparr>cname = ''site'', dtype = NumberT, cells = [NA, Num 7]\<rparr>]"
    unfolding val' .
  from wf a b show ?thesis by (intro conjI)
qed

text \<open>
  C2. The spec lets a text column that is not all numbers fall back to strings. On the
  table \<open>labels\<close> the column \<^verbatim>\<open>site\<close> holds \<^verbatim>\<open>north\<close> and \<^verbatim>\<open>12\<close>; after the cleaning
  section it is a numeric column holding a missing value and the number 12, not the strings.
\<close>

theorem text_column_becomes_missing:
  "cleaned decimal_lib labels untouched =
     Inr [\<lparr>cname = ''site'', dtype = NumberT, cells = [NA, Num 12]\<rparr>]"
  by code_simp

section \<open>Absent columns\<close>

text \<open>
  C1. The spec promises a warning in place of a crash when GHI is absent. On the table
  \<open>wind_only\<close>, with no widget touched, the run ends with the exception of the line-chart
  multiselect, whose default names GHI, and the histogram section's warning is not on the
  page.
\<close>

theorem absent_GHI_stops_the_run:
  "snd (run decimal_lib (Some wind_only) untouched) = Some StreamlitAPIException \<and>
   Warning ''GHI column is missing in the dataset!''
     \<notin> set (fst (run decimal_lib (Some wind_only) untouched))"
  by code_simp

section \<open>The data quality check\<close>

lemma count_missing: "length (filter (\<lambda>x. x = NA) xs) = count_list xs NA"
  by (induction xs) auto

lemma count_missing_pos: "(0 < count_list xs NA) = (NA \<in> set xs)"
  by (induction xs) auto

lemma isnull_total: "(0 < sum_list (map snd (isnull_sum df))) = has_missing df"
  by (induction df) (auto simp: isnull_sum_def has_missing_def count_missing count_missing_pos)

lemma isnull_positive: "filter (\<lambda>e. 0 < snd e) (isnull_sum df) = missing_report df"
  by (induction df) (auto simp: isnull_sum_def missing_report_def count_missing count_missing_pos)

text \<open>
  C5. The missing-value prompt is shown exactly when the table has a missing cell. With a
  missing cell the section shows the per-column report, which lists exactly the columns
  with a positive missing count, and the handling radio; without one it shows only
  "No missing values detected!".
\<close>

theorem missing_prompt_iff:
  "fst (quality_check df u) =
     (if has_missing df
      then [Subheader ''Data Quality Check'',
            Write ''Missing values in each column:'',
            WriteCounts (missing_report df),
            Radio ''Select how to handle missing values:''
              [''No action'', ''Forward fill'', ''Drop rows with missing values'']] @
           (case handle_missing u of
              NoAction \<Rightarrow> []
            | ForwardFill \<Rightarrow> [Success ''Missing values filled using forward fill!'']
            | DropRows \<Rightarrow> [Success ''Rows with missing values have been dropped!''])
      else [Subheader ''Data Quality Check'', Write ''No missing values detected!''])"
  by (simp add: quality_check_def Let_def isnull_total isnull_positive split: handle_choice.split)

section \<open>The table after the cleaning section\<close>

lemma columns_ffill: "map cname (ffill df) = map cname df"
  by (simp add: ffill_def)

lemma columns_dropna: "map cname (dropna df) = map cname df"
  by (simp add: dropna_def)

lemma data_quality_check:
  "snd (quality_check df u) =
     (if has_missing df
      then (case handle_missing u of NoAction \<Rightarrow> df | ForwardFill \<Rightarrow> ffill df | DropRows \<Rightarrow> dropna df)
      else df)"
  by (simp add: quality_check_def Let_def isnull_total split: handle_choice.split)

lemma columns_quality_check: "map cname (snd (quality_check df u)) = map cname df"
  by (simp add: data_quality_check columns_ffill columns_dropna split: handle_choice.split)

lemma handled_eq: "snd (quality_check df u) = handled df u"
  by (simp add: data_quality_check handled_def)

lemma columns_handled: "map cname (handled df u) = map cname df"
  using columns_quality_check [of df u] by (simp add: handled_eq)

lemma columns_coerced: "columns (coerced L data0 u) = columns data0"
proof -
  have "map cname (map (coerced_column L) (handled data0 u)) = map cname (handled data0 u)"
    by (simp add: cname_coerced_column cong: map_cong)
  then show ?thesis by (simp add: columns_def coerced_def columns_handled)
qed

lemma coerce_handled:
  assumes "wf_frame data0"
  shows "coerce_objects L (snd (quality_check data0 u)) = Inr (coerced L data0 u)"
proof -
  from assms have "distinct (map cname (snd (quality_check data0 u)))"
    by (simp add: columns_quality_check wf_frame_def)
  then have "coerce_objects L (snd (quality_check data0 u)) =
      Inr (map (coerced_column L) (snd (quality_check data0 u)))"
    by (rule coerce_objects_map)
  then show ?thesis by (simp add: coerced_def handled_eq)
qed

lemma snd_cleaned_preview:
  "snd (cleaned_preview L data u) =
     (if clean_data u \<and> \<not> shows_table L (head data)
      then Some StreamlitDataframeConversionError else None)"
  by (simp add: cleaned_preview_def and_then_def render_def)

lemma cleaned_eq:
  assumes "wf_frame data0"
  shows "cleaned L data0 u =
     (if \<not> shows_table L (head data0) then Inl StreamlitDataframeConversionError
      else if clean_data u \<and> \<not> shows_table L (head (coerced L data0 u))
      then Inl StreamlitDataframeConversionError
      else Inr (coerced L data0 u))"
  by (simp add: cleaned_def cleaning_section_def Let_def split_beta coerce_handled [OF assms]
      snd_cleaned_preview)

lemma wf_remarks: "wf_frame (remarks :: 'n frame)"
  by (simp add: wf_frame_def remarks_def nrows_def)

lemma has_missing_remarks: "has_missing (remarks :: 'n frame)"
  by (simp add: has_missing_def remarks_def)

lemma dropna_remarks:
  "dropna (remarks :: 'n frame) = [\<lparr>cname = ''GHI'', dtype = ObjectT, cells = [Str ''unknown'']\<rparr>]"
  by (simp add: dropna_def remarks_def row_mask_def take_mask_def nrows_def upt_rec)

lemma handled_remarks:
  "handled (remarks :: 'n frame) drop_rows =
     [\<lparr>cname = ''GHI'', dtype = ObjectT, cells = [Str ''unknown'']\<rparr>]"
  by (simp add: handled_def has_missing_remarks drop_rows_def dropna_remarks)

text \<open>
  C10. Dropping the rows with missing values does not make the cleaned table free of
  missing values: coercion runs afterwards and turns an entry that is no number into a
  missing one. For every library whose parser rejects \<^verbatim>\<open>unknown\<close> and that displays the
  table \<open>remarks\<close>, there is a loaded table with a missing cell on which the user picks
  "Drop rows with missing values", the table after the drop has no missing cell, and the
  cleaned table has one.
\<close>

theorem drop_rows_leaves_missing:
  fixes L :: "'n library"
  assumes "parse_num L ''unknown'' = None" and "shows_table L (head remarks)"
  shows "\<exists>(df :: 'n frame) u. wf_frame df \<and> has_missing df \<and> handle_missing u = DropRows \<and>
           \<not> has_missing (snd (quality_check df u)) \<and>
           (\<exists>df'. cleaned L df u = Inr df' \<and> has_missing df')"
proof (intro exI conjI)
  show "wf_frame (remarks :: 'n frame)" by (rule wf_remarks)
  show "has_missing (remarks :: 'n frame)" by (rule has_missing_remarks)
  show "handle_missing drop_rows = DropRows" by (simp add: drop_rows_def)
  show "\<not> has_missing (snd (quality_check (remarks :: 'n frame) drop_rows))"
    by (simp add: handled_eq handled_remarks has_missing_def)
  have "\<not> clean_data drop_rows" by (simp add: drop_rows_def untouched_def)
  with assms(2) have "cleaned L remarks drop_rows = Inr (coerced L remarks drop_rows)"
    by (simp add: cleaned_eq [OF wf_remarks])
  moreover have "coerced L remarks drop_rows =
      [\<lparr>cname = ''GHI'', dtype = NumberT, cells = [NA]\<rparr>]"
    using assms(1)
    by (simp add: coerced_def handled_remarks coerced_column_def numeric_cell_def
        all_flags_def is_flag_def)
  ultimately show "cleaned L remarks drop_rows =
      Inr [\<lparr>cname = ''GHI'', dtype = NumberT, cells = [NA]\<rparr>]"
    by simp
  show "has_missing [\<lparr>cname = ''GHI'', dtype = NumberT, cells = [NA :: 'n cell]\<rparr>]"
    by (simp add: has_missing_def)
qed

theorem drop_rows_leaves_missing_witness:
  "parse_num decimal_lib ''unknown'' = None \<and>
   shows_table decimal_lib (head remarks) \<and>
   wf_frame (remarks :: int frame) \<and>
   has_missing (remarks :: int frame) \<and>
   snd (quality_check remarks drop_rows) =
     [\<lparr>cname = ''GHI'', dtype = ObjectT, cells = [Str ''unknown'' :: int cell]\<rparr>] \<and>
   cleaned decimal_lib remarks drop_rows =
     Inr [\<lparr>cname = ''GHI'', dtype = NumberT, cells = [NA]\<rparr>] \<and>
   (\<exists>(df :: int frame) u. wf_frame df \<and> has_missing df \<and> handle_missing u = DropRows \<and>
      \<not> has_missing (snd (quality_check df u)) \<and>
      (\<exists>df'. cleaned decimal_lib df u = Inr df' \<and> has_missing df'))"
proof -
  have p: "parse_num decimal_lib ''unknown'' = None" by code_simp
  have s: "shows_table decimal_lib (head remarks)" by code_simp
  have w: "wf_frame (remarks :: int frame)" by code_simp
  have m: "has_missing (remarks :: int frame)" by code_simp
  have q: "snd (quality_check remarks drop_rows) =
     [\<lparr>cname = ''GHI'', dtype = ObjectT, cells = [Str ''unknown'' :: int cell]\<rparr>]"
    by code_simp
  have c: "cleaned decimal_lib remarks drop_rows =
     Inr [\<lparr>cname = ''GHI'', dtype = NumberT, cells = [NA]\<rparr>]"
    by code_simp
  from p s w m q c drop_rows_leaves_missing [OF p s] show ?thesis by (intro conjI)
qed

section \<open>Forward fill\<close>

lemma length_ffill_from: "length (ffill_from v xs) = length xs"
  by (induction xs arbitrary: v) simp_all

lemma find_snoc:
  "find P (xs @ [x]) = (case find P xs of None \<Rightarrow> (if P x then Some x else None) | Some y \<Rightarrow> Some y)"
  by (induction xs) simp_all

lemma ffill_from_nth:
  "i < length xs \<Longrightarrow>
   ffill_from v xs ! i =
     (if xs ! i \<noteq> NA then xs ! i
      else case preceding_valid xs i of None \<Rightarrow> v | Some w \<Rightarrow> w)"
proof (induction xs arbitrary: v i)
  case Nil
  then show ?case by simp
next
  case (Cons x xs)
  show ?case
  proof (cases i)
    case 0
    then show ?thesis by (simp add: preceding_valid_def)
  next
    case (Suc j)
    with Cons.prems have j: "j < length xs" by simp
    have step: "preceding_valid (x # xs) (Suc j) =
        (case preceding_valid xs j of None \<Rightarrow> (if x \<noteq> NA then Some x else None) | Some y \<Rightarrow> Some y)"
      by (simp add: preceding_valid_def find_snoc)
    show ?thesis
    proof (cases "x = NA")
      case True
      then show ?thesis
        using Cons.IH [OF j, of v] Suc step by (simp split: option.splits)
    next
      case False
      then show ?thesis
        using Cons.IH [OF j, of x] Suc step by (simp split: option.splits)
    qed
  qed
qed

lemma nrows_ffill: "nrows (ffill df) = nrows df"
  by (cases df) (simp_all add: nrows_def ffill_def length_ffill_from)

lemma dtypes_ffill: "dtypes (ffill df) = dtypes df"
  by (simp add: dtypes_def ffill_def)

lemma wf_cell_length: "wf_frame df \<Longrightarrow> c \<in> set df \<Longrightarrow> length (cells c) = nrows df"
  by (simp add: wf_frame_def list_all_iff)

lemma ffill_cell:
  assumes "wf_frame df" and "j < length df" and "i < nrows df"
  shows "cells (ffill df ! j) ! i =
     (if cells (df ! j) ! i \<noteq> NA then cells (df ! j) ! i
      else case preceding_valid (cells (df ! j)) i of None \<Rightarrow> NA | Some w \<Rightarrow> w)"
proof -
  from assms(2) have "df ! j \<in> set df" by simp
  with assms(1) have "length (cells (df ! j)) = nrows df" by (rule wf_cell_length)
  with assms(3) have "i < length (cells (df ! j))" by simp
  then have "ffill_from NA (cells (df ! j)) ! i =
     (if cells (df ! j) ! i \<noteq> NA then cells (df ! j) ! i
      else case preceding_valid (cells (df ! j)) i of None \<Rightarrow> NA | Some w \<Rightarrow> w)"
    by (rule ffill_from_nth)
  then show ?thesis using assms(2) by (simp add: ffill_def)
qed

section \<open>Dropping rows\<close>

lemma take_mask_Cons:
  "take_mask (b # m) (x # xs) = (if b then x # take_mask m xs else take_mask m xs)"
  by (simp add: take_mask_def)

lemma upt_Suc_shift: "[0..<Suc n] = 0 # map Suc [0..<n]"
  by (simp add: upt_conv_Cons map_Suc_upt del: upt_Suc)

lemma take_mask_nths:
  "length m = length xs \<Longrightarrow>
   take_mask m xs = map ((!) xs) (filter ((!) m) [0..<length xs])"
proof (induction m xs rule: list_induct2)
  case Nil
  then show ?case by (simp add: take_mask_def)
next
  case (Cons b m x xs)
  have "filter ((!) (b # m)) [0..<Suc (length xs)] =
      (if b then [0] else []) @ map Suc (filter ((!) m) [0..<length xs])"
    unfolding upt_Suc_shift by (simp add: filter_map o_def)
  then have "map ((!) (x # xs)) (filter ((!) (b # m)) [0..<length (x # xs)]) =
      (if b then [x] else []) @ map ((!) xs) (filter ((!) m) [0..<length xs])"
    by (simp add: o_def)
  with Cons.IH show ?case by (simp add: take_mask_Cons)
qed

lemma length_row_mask: "length (row_mask df) = nrows df"
  by (simp add: row_mask_def)

lemma filter_row_mask: "filter ((!) (row_mask df)) [0..<nrows df] = complete_rows df"
  unfolding complete_rows_def
  by (rule filter_cong [OF refl]) (simp add: row_mask_def)

lemma dropna_cells:
  assumes "wf_frame df" and "c \<in> set df"
  shows "take_mask (row_mask df) (cells c) = map ((!) (cells c)) (complete_rows df)"
proof -
  from assms have len: "length (cells c) = nrows df" by (rule wf_cell_length)
  then have "length (row_mask df) = length (cells c)" by (simp add: length_row_mask)
  then have "take_mask (row_mask df) (cells c) =
      map ((!) (cells c)) (filter ((!) (row_mask df)) [0..<length (cells c)])"
    by (rule take_mask_nths)
  then show ?thesis by (simp add: len filter_row_mask)
qed

lemma dropna_alt:
  assumes "wf_frame df"
  shows "dropna df = map (\<lambda>c. c\<lparr>cells := map ((!) (cells c)) (complete_rows df)\<rparr>) df"
  unfolding dropna_def
  by (rule map_cong [OF refl]) (simp add: dropna_cells [OF assms])

lemma nrows_dropna:
  assumes "wf_frame df"
  shows "nrows (dropna df) = length (complete_rows df)"
proof (cases df)
  case Nil
  then show ?thesis by (simp add: dropna_def nrows_def complete_rows_def)
next
  case (Cons c cs)
  from dropna_alt [OF assms] Cons
  have "dropna df = map (\<lambda>c. c\<lparr>cells := map ((!) (cells c)) (complete_rows df)\<rparr>) (c # cs)"
    by simp
  then show ?thesis by (simp add: nrows_def)
qed

lemma row_dropna:
  assumes "wf_frame df" and "k < length (complete_rows df)"
  shows "row (dropna df) k = row df (complete_rows df ! k)"
  using assms(2) by (simp add: dropna_alt [OF assms(1)] row_def o_def)

lemma rows_dropna_nths:
  assumes "wf_frame df"
  shows "rows (dropna df) = map (row df) (complete_rows df)"
proof -
  have "rows (dropna df) = map (row (dropna df)) [0..<length (complete_rows df)]"
    by (simp add: rows_def nrows_dropna [OF assms])
  also have "\<dots> = map (\<lambda>k. row df (complete_rows df ! k)) [0..<length (complete_rows df)]"
    by (rule map_cong [OF refl]) (simp add: row_dropna [OF assms])
  also have "\<dots> = map (row df) (map ((!) (complete_rows df)) [0..<length (complete_rows df)])"
    by (simp add: o_def)
  also have "\<dots> = map (row df) (complete_rows df)"
    by (simp only: map_nth)
  finally show ?thesis .
qed

lemma row_complete: "(NA \<notin> set (row df i)) = list_all (\<lambda>c. cells c ! i \<noteq> NA) df"
  by (induction df) (auto simp: row_def)

lemma rows_dropna:
  assumes "wf_frame df"
  shows "rows (dropna df) = filter (\<lambda>r. NA \<notin> set r) (rows df)"
proof -
  have "filter (\<lambda>r. NA \<notin> set r) (rows df) = map (row df) (complete_rows df)"
    by (simp add: rows_def filter_map o_def row_complete complete_rows_def)
  with rows_dropna_nths [OF assms] show ?thesis by simp
qed

lemma dtypes_dropna: "dtypes (dropna df) = dtypes df"
  by (simp add: dtypes_def dropna_def)

lemma no_missing_cell:
  assumes "wf_frame df" and "\<not> has_missing df" and "c \<in> set df" and "i < nrows df"
  shows "cells c ! i \<noteq> NA"
proof -
  from assms(1,3) have "length (cells c) = nrows df" by (rule wf_cell_length)
  with assms(4) have "cells c ! i \<in> set (cells c)" by simp
  moreover from assms(2,3) have "NA \<notin> set (cells c)" by (auto simp: has_missing_def list_ex_iff)
  ultimately show ?thesis by auto
qed

lemma no_missing_rows:
  assumes "wf_frame df" and "\<not> has_missing df"
  shows "filter (\<lambda>r. NA \<notin> set r) (rows df) = rows df"
proof (rule filter_True, rule ballI)
  fix r assume "r \<in> set (rows df)"
  then obtain i where i: "i < nrows df" "r = row df i" by (auto simp: rows_def)
  have "list_all (\<lambda>c. cells c ! i \<noteq> NA) df"
    unfolding list_all_iff using no_missing_cell [OF assms] i(1) by blast
  then show "NA \<notin> set r" using i(2) by (simp add: row_complete)
qed

section \<open>The two cleaning strategies\<close>

text \<open>
  C4, as the spec states it: forward fill replaces each missing cell with the most recent
  valid value before it. On the table \<open>leading_gap\<close> the first cell of GHI is missing and
  nothing precedes it; after "Forward fill" it is still missing.
\<close>

theorem leading_gap_stays_missing:
  "handle_missing forward_fill = ForwardFill \<and>
   cells (leading_gap ! 0) ! 0 = NA \<and>
   cells (snd (quality_check leading_gap forward_fill) ! 0) ! 0 = NA"
  by code_simp

text \<open>
  C4, amended. On a loaded table, "Drop rows with missing values" keeps the columns and
  leaves exactly the rows that have no missing cell, unchanged and in order. "Forward fill"
  keeps the columns and the row count, leaves every valid cell unchanged, and replaces a
  missing cell with the most recent valid value before it in its column when there is one;
  a missing cell with no valid value before it stays missing.
\<close>

theorem cleaning_strategies:
  assumes "wf_frame df"
  shows "(handle_missing u = DropRows \<longrightarrow>
            columns (snd (quality_check df u)) = columns df \<and>
            rows (snd (quality_check df u)) = filter (\<lambda>r. NA \<notin> set r) (rows df)) \<and>
         (handle_missing u = ForwardFill \<longrightarrow>
            columns (snd (quality_check df u)) = columns df \<and>
            nrows (snd (quality_check df u)) = nrows df \<and>
            (\<forall>j < length df. \<forall>i < nrows df.
               cells (snd (quality_check df u) ! j) ! i =
                 (if cells (df ! j) ! i \<noteq> NA then cells (df ! j) ! i
                  else case preceding_valid (cells (df ! j)) i of
                         None \<Rightarrow> NA | Some w \<Rightarrow> w)))"
proof (intro conjI impI allI)
  assume "handle_missing u = DropRows"
  show "columns (snd (quality_check df u)) = columns df"
    by (simp add: columns_def columns_quality_check)
next
  assume h: "handle_missing u = DropRows"
  show "rows (snd (quality_check df u)) = filter (\<lambda>r. NA \<notin> set r) (rows df)"
  proof (cases "has_missing df")
    case True
    with h show ?thesis by (simp add: data_quality_check rows_dropna [OF assms])
  next
    case False
    with h show ?thesis by (simp add: data_quality_check no_missing_rows [OF assms])
  qed
next
  assume "handle_missing u = ForwardFill"
  show "columns (snd (quality_check df u)) = columns df"
    by (simp add: columns_def columns_quality_check)
next
  assume h: "handle_missing u = ForwardFill"
  show "nrows (snd (quality_check df u)) = nrows df"
    using h by (simp add: data_quality_check nrows_ffill)
next
  fix j i
  assume h: "handle_missing u = ForwardFill" and j: "j < length df" and i: "i < nrows df"
  show "cells (snd (quality_check df u) ! j) ! i =
      (if cells (df ! j) ! i \<noteq> NA then cells (df ! j) ! i
       else case preceding_valid (cells (df ! j)) i of None \<Rightarrow> NA | Some w \<Rightarrow> w)"
  proof (cases "has_missing df")
    case True
    with h show ?thesis by (simp add: data_quality_check ffill_cell [OF assms j i])
  next
    case False
    from j have "df ! j \<in> set df" by simp
    with assms False have "cells (df ! j) ! i \<noteq> NA" using i by (rule no_missing_cell)
    with False show ?thesis by (simp add: data_quality_check)
  qed
qed

theorem cleaning_strategies_witness:
  "wf_frame gaps \<and>
   rows (snd (quality_check gaps drop_rows)) = [[Num 1, Str ''a'']] \<and>
   cells (snd (quality_check gaps forward_fill) ! 0) ! 1 = Num 1"
proof -
  have wf: "wf_frame gaps" by code_simp
  have d: "handle_missing drop_rows = DropRows" by code_simp
  have f: "handle_missing forward_fill = ForwardFill" by code_simp
  have r: "filter (\<lambda>r. NA \<notin> set r) (rows gaps) = [[Num 1, Str ''a'']]" by code_simp
  have j: "0 < length gaps" by code_simp
  have i: "1 < nrows gaps" by code_simp
  have v: "(if cells (gaps ! 0) ! 1 \<noteq> NA then cells (gaps ! 0) ! 1
       else case preceding_valid (cells (gaps ! 0)) 1 of None \<Rightarrow> NA | Some w \<Rightarrow> w) = Num 1"
    by code_simp
  from cleaning_strategies [OF wf, of drop_rows] d
  have "rows (snd (quality_check gaps drop_rows)) = filter (\<lambda>r. NA \<notin> set r) (rows gaps)"
    by blast
  with r have a: "rows (snd (quality_check gaps drop_rows)) = [[Num 1, Str ''a'']]" by simp
  from cleaning_strategies [OF wf, of forward_fill] f j i
  have "cells (snd (quality_check gaps forward_fill) ! 0) ! 1 =
      (if cells (gaps ! 0) ! 1 \<noteq> NA then cells (gaps ! 0) ! 1
       else case preceding_valid (cells (gaps ! 0)) 1 of None \<Rightarrow> NA | Some w \<Rightarrow> w)"
    by blast
  with v have b: "cells (snd (quality_check gaps forward_fill) ! 0) ! 1 = Num 1" by simp
  from wf a b show ?thesis by (intro conjI)
qed

section \<open>What the cleaning operations leave alone\<close>

lemma ffill_valid_cell:
  assumes "wf_frame df" and "j < length df" and "i < nrows df" and "cells (df ! j) ! i \<noteq> NA"
  shows "cells (ffill df ! j) ! i = cells (df ! j) ! i"
  using ffill_cell [OF assms(1,2,3)] assms(4) by simp

text \<open>
  C7. On a loaded table: forward fill keeps the columns and the row count and changes no
  cell that was valid; dropping rows keeps the columns, and the rows it leaves are rows of
  the table before, unchanged and in their order; coercion returns, keeps the columns and
  leaves every column that is not of object type as it was.
\<close>

theorem cleaning_frame:
  fixes L :: "'n library"
  assumes "wf_frame df"
  shows "(columns (ffill df) = columns df \<and> nrows (ffill df) = nrows df \<and>
          (\<forall>j < length df. \<forall>i < nrows df.
             cells (df ! j) ! i \<noteq> NA \<longrightarrow> cells (ffill df ! j) ! i = cells (df ! j) ! i)) \<and>
         (columns (dropna df) = columns df \<and> subseq (rows (dropna df)) (rows df)) \<and>
         (\<exists>df'. coerce_objects L df = Inr df' \<and> columns df' = columns df \<and>
            length df' = length df \<and>
            (\<forall>j < length df. dtype (df ! j) \<noteq> ObjectT \<longrightarrow> df' ! j = df ! j))"
proof (intro conjI)
  show "columns (ffill df) = columns df" by (simp add: columns_def columns_ffill)
  show "nrows (ffill df) = nrows df" by (rule nrows_ffill)
  show "\<forall>j < length df. \<forall>i < nrows df.
      cells (df ! j) ! i \<noteq> NA \<longrightarrow> cells (ffill df ! j) ! i = cells (df ! j) ! i"
    using ffill_valid_cell [OF assms] by blast
  show "columns (dropna df) = columns df" by (simp add: columns_def columns_dropna)
  show "subseq (rows (dropna df)) (rows df)"
    unfolding rows_dropna [OF assms] by (rule subseq_filter_left)
  show "\<exists>df'. coerce_objects L df = Inr df' \<and> columns df' = columns df \<and>
      length df' = length df \<and>
      (\<forall>j < length df. dtype (df ! j) \<noteq> ObjectT \<longrightarrow> df' ! j = df ! j)"
  proof (intro exI conjI allI impI)
    from assms show "coerce_objects L df = Inr (map (coerced_column L) df)"
      by (simp add: wf_frame_def coerce_objects_map)
    show "columns (map (coerced_column L) df) = columns df"
      by (simp add: columns_def cname_coerced_column cong: map_cong)
    show "length (map (coerced_column L) df) = length df" by simp
  next
    fix j assume "j < length df" and "dtype (df ! j) \<noteq> ObjectT"
    then show "map (coerced_column L) df ! j = df ! j"
      by (simp add: coerced_column_other)
  qed
qed

theorem cleaning_frame_witness:
  "wf_frame gaps \<and>
   nrows (ffill gaps) = 3 \<and>
   cells (ffill gaps ! 0) ! 2 = Num 3 \<and>
   columns (dropna gaps) = [''GHI'', ''site''] \<and>
   subseq (rows (dropna gaps)) [[Num 1, Str ''a''], [NA, Str ''b''], [Num 3, NA]]"
proof -
  have wf: "wf_frame gaps" by code_simp
  note frame = cleaning_frame [OF wf, of decimal_lib]
  have n: "nrows gaps = 3" by code_simp
  have c: "columns gaps = [''GHI'', ''site'']" by code_simp
  have r: "rows gaps = [[Num 1, Str ''a''], [NA, Str ''b''], [Num 3, NA]]" by code_simp
  have j: "0 < length gaps" by code_simp
  have i: "2 < nrows gaps" by code_simp
  have v: "cells (gaps ! 0) ! 2 = Num 3" by code_simp
  from frame have "nrows (ffill gaps) = nrows gaps" by (elim conjE)
  with n have a: "nrows (ffill gaps) = 3" by simp
  from frame have "\<forall>j < length gaps. \<forall>i < nrows gaps.
      cells (gaps ! j) ! i \<noteq> NA \<longrightarrow> cells (ffill gaps ! j) ! i = cells (gaps ! j) ! i"
    by (elim conjE)
  with j i v have b: "cells (ffill gaps ! 0) ! 2 = Num 3" by simp
  from frame have "columns (dropna gaps) = columns gaps" by (elim conjE)
  with c have d: "columns (dropna gaps) = [''GHI'', ''site'']" by simp
  from frame have "subseq (rows (dropna gaps)) (rows gaps)" by (elim conjE)
  then have e: "subseq (rows (dropna gaps)) [[Num 1, Str ''a''], [NA, Str ''b''], [Num 3, NA]]"
    unfolding r .
  from wf a b d e show ?thesis by (intro conjI)
qed

section \<open>Charts and the columns they index\<close>

lemma multiselect_subset: "multiselect opts dflt picked = Inr sel \<Longrightarrow> set sel \<subseteq> set opts"
  by (auto simp: multiselect_def list_all_iff split: if_splits option.splits)

lemma multiselect_error: "multiselect opts dflt picked = Inl e \<Longrightarrow> e = StreamlitAPIException"
  by (simp add: multiselect_def split: if_splits)

lemma multiselect_selection:
  "multiselect opts dflt picked = Inr sel \<Longrightarrow> sel = selection opts dflt picked"
  by (auto simp: multiselect_def selection_def split: if_splits)

lemma getitem_known:
  assumes "k \<in> set (columns df)"
  shows "\<exists>c. getitem df k = Inr c \<and> c \<in> set df"
proof (cases "find (\<lambda>c. cname c = k) df")
  case None
  with assms show ?thesis by (auto simp: find_None_iff columns_def)
next
  case (Some c)
  then have "c \<in> set df" using find_in_set by fastforce
  with Some show ?thesis by (simp add: getitem_def)
qed

lemma getitem_list_known:
  "set ks \<subseteq> set (columns df) \<Longrightarrow> \<exists>sub. getitem_list df ks = Inr sub \<and> set sub \<subseteq> set df"
proof (induction ks)
  case Nil
  then show ?case by simp
next
  case (Cons k ks)
  then obtain sub where sub: "getitem_list df ks = Inr sub" "set sub \<subseteq> set df" by auto
  from Cons.prems have "k \<in> set (columns df)" by simp
  then obtain c where c: "getitem df k = Inr c" "c \<in> set df" using getitem_known by blast
  from sub c show ?case by simp
qed

lemma numeric_columns_known: "set (columns (select_dtypes t df)) \<subseteq> set (columns df)"
  by (auto simp: columns_def select_dtypes_def)

lemma indexes_existing_plain:
  "list_all (\<lambda>e. chart_columns e = []) shown \<Longrightarrow> e \<noteq> Some KeyError \<Longrightarrow>
   indexes_existing data (shown, e)"
  by (induction shown) (auto simp: indexes_existing_def)

lemma indexes_existing_and_then:
  "indexes_existing data r1 \<Longrightarrow> indexes_existing data r2 \<Longrightarrow>
   indexes_existing data (and_then r1 r2)"
  by (cases r1) (auto simp: indexes_existing_def and_then_def split: option.splits)

lemma indexes_existing_render:
  "list_all (\<lambda>c. c \<in> set data) (chart_columns e) \<Longrightarrow> err \<noteq> KeyError \<Longrightarrow>
   indexes_existing data (render accepted err e)"
  by (simp add: indexes_existing_def render_def)

lemma selection_block:
  assumes "set sel \<subseteq> set (columns data)"
  shows "\<exists>sub. getitem_list data sel = Inr sub \<and> list_all (\<lambda>c. c \<in> set data) sub"
  using getitem_list_known [OF assms] by (auto simp: list_all_iff)

lemma line_chart_block_ok: "indexes_existing data (line_chart_block L data u)"
proof (cases "multiselect (columns (select_dtypes NumberT data)) [''GHI'', ''DNI'', ''DHI'']
    (selected_columns u)")
  case (Inl e)
  then have "e = StreamlitAPIException" by (rule multiselect_error)
  with Inl show ?thesis
    by (simp add: line_chart_block_def Let_def indexes_existing_def chart_columns_def)
next
  case (Inr sel)
  then have "set sel \<subseteq> set (columns data)"
    using multiselect_subset numeric_columns_known by blast
  then obtain sub where sub: "getitem_list data sel = Inr sub" "list_all (\<lambda>c. c \<in> set data) sub"
    using selection_block by blast
  let ?shown = "[Subheader ''Solar Radiation Trends'',
     Multiselect ''Select columns for line chart:'' (columns (select_dtypes NumberT data))
       [''GHI'', ''DNI'', ''DHI'']] :: 'a element list"
  have plain: "indexes_existing data (?shown, None)"
    by (simp add: indexes_existing_def chart_columns_def)
  have chart: "indexes_existing data (render (draws_lines L sub) ValueError (LineChart sub))"
    using sub(2) by (intro indexes_existing_render) (simp_all add: chart_columns_def)
  have "indexes_existing data
      (and_then (?shown, None) (render (draws_lines L sub) ValueError (LineChart sub)))"
    using plain chart by (rule indexes_existing_and_then)
  moreover have "indexes_existing data
      (?shown @ [Warning ''Please select at least one column for the line chart.''], None)"
    by (simp add: indexes_existing_def chart_columns_def)
  ultimately show ?thesis using Inr sub(1)
    by (simp add: line_chart_block_def Let_def)
qed

lemma correlation_block_ok: "indexes_existing data (correlation_block data u)"
proof (cases "multiselect (columns (select_dtypes NumberT data))
    (columns (select_dtypes NumberT data)) (selected_corr_columns u)")
  case (Inl e)
  then have "e = StreamlitAPIException" by (rule multiselect_error)
  with Inl show ?thesis
    by (simp add: correlation_block_def Let_def indexes_existing_def chart_columns_def)
next
  case (Inr sel)
  then have "set sel \<subseteq> set (columns data)"
    using multiselect_subset numeric_columns_known by blast
  then obtain sub where "getitem_list data sel = Inr sub" "list_all (\<lambda>c. c \<in> set data) sub"
    using selection_block by blast
  with Inr show ?thesis
    by (simp add: correlation_block_def Let_def indexes_existing_def chart_columns_def)
qed

lemma histogram_block_ok: "indexes_existing data (histogram_block L data u)"
proof (cases "''GHI'' \<in> set (columns data)")
  case True
  then obtain c where c: "getitem data ''GHI'' = Inr c" "c \<in> set data"
    using getitem_known by blast
  let ?shown = "[Subheader ''Histogram for Global Horizontal Irradiance (GHI)'',
     Slider ''Select number of bins:'' 5 50 20] :: 'a element list"
  let ?bins = "slider 5 50 20 (bin_size u)"
  have plain: "indexes_existing data (?shown, None)"
    by (simp add: indexes_existing_def chart_columns_def)
  have chart: "indexes_existing data
      (render (draws_histogram L c ?bins) ValueError (HistPlot c ?bins))"
    using c(2) by (intro indexes_existing_render) (simp_all add: chart_columns_def)
  have "indexes_existing data
      (and_then (?shown, None) (render (draws_histogram L c ?bins) ValueError (HistPlot c ?bins)))"
    using plain chart by (rule indexes_existing_and_then)
  with True c(1) show ?thesis by (simp add: histogram_block_def Let_def)
next
  case False
  then show ?thesis
    by (simp add: histogram_block_def indexes_existing_def chart_columns_def)
qed

lemma wind_block_ok: "indexes_existing data (wind_block data)"
proof (cases "''WD'' \<in> set (columns data) \<and> ''WS'' \<in> set (columns data)")
  case True
  then obtain wd ws where "getitem data ''WD'' = Inr wd" "wd \<in> set data"
    "getitem data ''WS'' = Inr ws" "ws \<in> set data"
    using getitem_known by blast
  with True show ?thesis
    by (simp add: wind_block_def indexes_existing_def chart_columns_def)
next
  case False
  then have "wind_block data =
      ([Warning ''Wind direction (WD) or speed (WS) columns are missing!''], None)"
    unfolding wind_block_def by (rule if_not_P)
  then show ?thesis by (simp add: indexes_existing_def chart_columns_def)
qed

lemma eda_section_ok: "indexes_existing data (eda_section L data u)"
  unfolding eda_section_def
  by (intro indexes_existing_and_then line_chart_block_ok histogram_block_ok
      correlation_block_ok wind_block_ok indexes_existing_plain)
    (simp_all add: chart_columns_def)

subsection \<open>The page before the charts holds no chart\<close>

lemma quality_check_plain: "list_all (\<lambda>e. chart_columns e = []) (fst (quality_check df u))"
  by (simp add: quality_check_def Let_def chart_columns_def split: handle_choice.split)

lemma cleaned_preview_plain:
  "list_all (\<lambda>e. chart_columns e = []) (fst (cleaned_preview L df u))"
  by (simp add: cleaned_preview_def and_then_def render_def chart_columns_def)

lemma cleaning_section_plain:
  "list_all (\<lambda>e. chart_columns e = []) (fst (cleaning_section L data0 u))"
proof (cases "shows_table L (head data0)")
  case False
  then show ?thesis by (simp add: cleaning_section_def chart_columns_def)
next
  case True
  have a: "list_all (\<lambda>e. chart_columns e = [])
      [Subheader ''Raw Data Preview'', WriteTable (head data0),
       Subheader ''Dataset Overview'',
       WriteShape ''Shape of the data:'' (shape data0),
       WriteColumns ''Columns in the dataset:'' (columns data0)]"
    by (simp add: chart_columns_def)
  have b: "list_all (\<lambda>e. chart_columns e = [])
      [Subheader ''Column Data Types'', WriteDtypes (dtypes (snd (quality_check data0 u)))]"
    by (simp add: chart_columns_def)
  show ?thesis
    using True a b quality_check_plain [of data0 u] cleaned_preview_plain [of L _ u]
    by (simp add: cleaning_section_def Let_def split_beta chart_columns_def
        split: sum.split option.split)
qed

lemma banner_plain: "list_all (\<lambda>e. chart_columns e = []) banner"
  by (simp add: banner_def chart_columns_def)

lemma about_plain: "list_all (\<lambda>e. chart_columns e = []) about"
  by (simp add: about_def chart_columns_def)

lemma run_cases:
  "run L (Some data0) u =
     (case cleaned L data0 u of
        Inl e \<Rightarrow> (banner @ fst (cleaning_section L data0 u), Some e)
      | Inr data \<Rightarrow>
          and_then
            (and_then (banner @ fst (cleaning_section L data0 u), None) (eda_section L data u))
            (about, None))"
  by (simp add: run_def cleaned_def split: prod.split sum.split)

lemma cleaned_error:
  assumes "wf_frame data0" and "cleaned L data0 u = Inl e"
  shows "e = StreamlitDataframeConversionError"
  using assms(2) by (simp add: cleaned_eq [OF assms(1)] split: if_splits)

lemma plain_no_chart:
  "list_all (\<lambda>e. chart_columns e = []) shown \<Longrightarrow> \<forall>e \<in> set shown. chart_columns e = []"
  by (simp add: list_all_iff)

text \<open>
  C3. On every loaded table the run never stops with KeyError, and every chart on the page
  (line chart, histogram, correlation heatmap, polar wind scatter) draws only columns of
  the table as it is when the charts are rendered, after cleaning. When the cleaning
  section itself raised there is no cleaned table, and no chart is on the page.
\<close>

theorem charts_index_existing_columns:
  fixes L :: "'n library"
  assumes "wf_frame data0"
  shows "snd (run L (Some data0) u) \<noteq> Some KeyError \<and>
         (case cleaned L data0 u of
            Inr data \<Rightarrow>
              \<forall>e \<in> set (fst (run L (Some data0) u)). set (chart_columns e) \<subseteq> set data
          | Inl err \<Rightarrow>
              \<forall>e \<in> set (fst (run L (Some data0) u)). chart_columns e = [])"
proof (cases "cleaned L data0 u")
  case (Inl err)
  with assms have "err = StreamlitDataframeConversionError" by (rule cleaned_error)
  moreover have "list_all (\<lambda>e. chart_columns e = []) (banner @ fst (cleaning_section L data0 u))"
    using banner_plain [where 'a = 'n] cleaning_section_plain [of L data0 u] by simp
  then have "\<forall>e \<in> set (banner @ fst (cleaning_section L data0 u)). chart_columns e = []"
    by (rule plain_no_chart)
  ultimately show ?thesis using Inl by (simp add: run_cases)
next
  case (Inr data)
  have start: "indexes_existing data (banner @ fst (cleaning_section L data0 u), None)"
    using banner_plain [where 'a = 'n] cleaning_section_plain [of L data0 u]
    by (intro indexes_existing_plain) simp_all
  have finish: "indexes_existing data (about, None)"
    using about_plain [where 'a = 'n] by (intro indexes_existing_plain) simp_all
  have "indexes_existing data
      (and_then
        (and_then (banner @ fst (cleaning_section L data0 u), None) (eda_section L data u))
        (about, None))"
    by (intro indexes_existing_and_then start finish eda_section_ok)
  then have "indexes_existing data (run L (Some data0) u)" using Inr by (simp add: run_cases)
  then show ?thesis using Inr by (auto simp: indexes_existing_def list_all_iff)
qed

theorem charts_index_existing_columns_witness:
  "wf_frame station \<and>
   snd (run decimal_lib (Some station) untouched) \<noteq> Some KeyError \<and>
   cleaned decimal_lib station untouched = Inr station \<and>
   list_all (\<lambda>c. c \<in> set station)
     (concat (map chart_columns (fst (run decimal_lib (Some station) untouched)))) \<and>
   map cname (concat (map chart_columns (fst (run decimal_lib (Some station) untouched)))) =
     [''GHI'', ''DNI'', ''DHI'', ''GHI'', ''GHI'', ''DNI'', ''DHI'', ''WD'', ''WS'', ''WD'', ''WS'']"
proof -
  have wf: "wf_frame station" by code_simp
  have c: "cleaned decimal_lib station untouched = Inr station" by code_simp
  have charts:
    "map cname (concat (map chart_columns (fst (run decimal_lib (Some station) untouched)))) =
     [''GHI'', ''DNI'', ''DHI'', ''GHI'', ''GHI'', ''DNI'', ''DHI'', ''WD'', ''WS'', ''WD'', ''WS'']"
    by code_simp
  note inst = charts_index_existing_columns [OF wf, of decimal_lib untouched]
  from inst have a: "snd (run decimal_lib (Some station) untouched) \<noteq> Some KeyError"
    by (elim conjE)
  from inst have "\<forall>e \<in> set (fst (run decimal_lib (Some station) untouched)).
      set (chart_columns e) \<subseteq> set station"
    unfolding c by simp
  then have b: "list_all (\<lambda>c. c \<in> set station)
      (concat (map chart_columns (fst (run decimal_lib (Some station) untouched))))"
    by (auto simp: list_all_iff)
  from wf a c b charts show ?thesis by (intro conjI)
qed

section \<open>The page of a run\<close>

lemma follows_plain: "follows (shown, None) shown"
  by (simp add: follows_def)

lemma follows_raised: "prefix shown expected \<Longrightarrow> follows (shown, Some e) expected"
  by (simp add: follows_def)

lemma follows_render: "follows (render accepted err e) [e]"
  by (simp add: follows_def render_def)

lemma follows_and_then:
  assumes "follows r1 e1" and "follows r2 e2"
  shows "follows (and_then r1 r2) (e1 @ e2)"
proof (cases "snd r1")
  case None
  with assms(1) have "fst r1 = e1" by (simp add: follows_def)
  with None assms(2) show ?thesis by (simp add: follows_def and_then_def)
next
  case (Some e)
  with assms(1) have "prefix (fst r1) e1" by (simp add: follows_def)
  then have "prefix (fst r1) (e1 @ e2)" by (rule prefix_prefix)
  with Some show ?thesis by (simp add: follows_def and_then_def)
qed

subsection \<open>Indexing a table whose column names are distinct\<close>

lemma named_column:
  assumes "distinct (map cname data)" and "c \<in> set data"
  shows "named data (cname c) = [c]"
  using assms
proof (induction data)
  case Nil
  then show ?case by simp
next
  case (Cons a data)
  show ?case
  proof (cases "c = a")
    case True
    from Cons.prems(1) have "cname a \<notin> cname ` set data" by simp
    then have "\<forall>x \<in> set data. cname x \<noteq> cname a" by (metis image_eqI)
    then have "filter (\<lambda>x. cname x = cname a) data = []" by (simp add: filter_empty_conv)
    with True show ?thesis by (simp add: named_def)
  next
    case False
    with Cons.prems have "c \<in> set data" by simp
    moreover from Cons.prems(1) have "distinct (map cname data)" by simp
    ultimately have ih: "named data (cname c) = [c]" by (rule Cons.IH [rotated])
    from Cons.prems(1) \<open>c \<in> set data\<close> have "cname a \<noteq> cname c" by auto
    with ih show ?thesis by (simp add: named_def)
  qed
qed

lemma getitem_named:
  assumes "distinct (map cname data)" and "k \<in> set (columns data)"
  shows "\<exists>c. getitem data k = Inr c \<and> named data k = [c]"
proof -
  from assms(2) obtain c where c: "getitem data k = Inr c" "c \<in> set data"
    using getitem_known by blast
  from c(1) have "cname c = k" using getitem_Inr by blast
  moreover from assms(1) c(2) have "named data (cname c) = [c]" by (rule named_column)
  ultimately show ?thesis using c(1) by auto
qed

lemma getitem_list_named:
  assumes "distinct (map cname data)"
  shows "set ks \<subseteq> set (columns data) \<Longrightarrow>
         getitem_list data ks = Inr (concat (map (named data) ks))"
proof (induction ks)
  case Nil
  then show ?case by simp
next
  case (Cons k ks)
  then have ih: "getitem_list data ks = Inr (concat (map (named data) ks))" by simp
  from Cons.prems have "k \<in> set (columns data)" by simp
  with assms obtain c where "getitem data k = Inr c" "named data k = [c]"
    using getitem_named by blast
  with ih show ?case by simp
qed

subsection \<open>The chart sections\<close>

lemma line_chart_follows:
  assumes "distinct (map cname data)"
  shows "follows (line_chart_block L data u) (page_lines data u)"
proof (cases "multiselect (columns (select_dtypes NumberT data)) [''GHI'', ''DNI'', ''DHI'']
    (selected_columns u)")
  case (Inl e)
  then show ?thesis
    by (simp add: line_chart_block_def page_lines_def Let_def follows_def)
next
  case (Inr sel)
  then have sel: "sel = selection (columns (select_dtypes NumberT data))
      [''GHI'', ''DNI'', ''DHI''] (selected_columns u)"
    by (rule multiselect_selection)
  from Inr have "set sel \<subseteq> set (columns data)"
    using multiselect_subset numeric_columns_known by blast
  with assms have sub: "getitem_list data sel = Inr (concat (map (named data) sel))"
    by (rule getitem_list_named)
  let ?shown = "[Subheader ''Solar Radiation Trends'',
     Multiselect ''Select columns for line chart:'' (columns (select_dtypes NumberT data))
       [''GHI'', ''DNI'', ''DHI'']] :: 'a element list"
  let ?sub = "concat (map (named data) sel)"
  show ?thesis
  proof (cases "sel = []")
    case True
    with Inr sel show ?thesis
      by (simp add: line_chart_block_def page_lines_def Let_def follows_def)
  next
    case False
    have "follows (and_then (?shown, None) (render (draws_lines L ?sub) ValueError (LineChart ?sub)))
        (?shown @ [LineChart ?sub])"
      by (intro follows_and_then follows_plain follows_render)
    moreover have "line_chart_block L data u =
        and_then (?shown, None) (render (draws_lines L ?sub) ValueError (LineChart ?sub))"
      using Inr False sub by (simp add: line_chart_block_def Let_def)
    moreover have "page_lines data u = ?shown @ [LineChart ?sub]"
      using False sel by (simp add: page_lines_def Let_def)
    ultimately show ?thesis by simp
  qed
qed

lemma histogram_follows:
  assumes "distinct (map cname data)"
  shows "follows (histogram_block L data u) (page_histogram data u)"
proof (cases "''GHI'' \<in> set (columns data)")
  case True
  with assms obtain c where c: "getitem data ''GHI'' = Inr c" "named data ''GHI'' = [c]"
    using getitem_named by blast
  let ?shown = "[Subheader ''Histogram for Global Horizontal Irradiance (GHI)'',
     Slider ''Select number of bins:'' 5 50 20] :: 'a element list"
  let ?bins = "slider 5 50 20 (bin_size u)"
  have "follows
      (and_then (?shown, None) (render (draws_histogram L c ?bins) ValueError (HistPlot c ?bins)))
      (?shown @ [HistPlot c ?bins])"
    by (intro follows_and_then follows_plain follows_render)
  moreover have "histogram_block L data u =
      and_then (?shown, None) (render (draws_histogram L c ?bins) ValueError (HistPlot c ?bins))"
    using True c(1) by (simp add: histogram_block_def Let_def)
  moreover have "page_histogram data u = ?shown @ [HistPlot c ?bins]"
    using True c(2) by (simp add: page_histogram_def slider_def)
  ultimately show ?thesis by simp
next
  case False
  then show ?thesis by (simp add: histogram_block_def page_histogram_def follows_def)
qed

lemma correlation_follows:
  assumes "distinct (map cname data)"
  shows "follows (correlation_block data u) (page_correlation data u)"
proof (cases "multiselect (columns (select_dtypes NumberT data))
    (columns (select_dtypes NumberT data)) (selected_corr_columns u)")
  case (Inl e)
  then show ?thesis
    by (simp add: correlation_block_def page_correlation_def Let_def follows_def)
next
  case (Inr sel)
  then have sel: "sel = selection (columns (select_dtypes NumberT data))
      (columns (select_dtypes NumberT data)) (selected_corr_columns u)"
    by (rule multiselect_selection)
  from Inr have "set sel \<subseteq> set (columns data)"
    using multiselect_subset numeric_columns_known by blast
  with assms have sub: "getitem_list data sel = Inr (concat (map (named data) sel))"
    by (rule getitem_list_named)
  show ?thesis
  proof (cases "sel = []")
    case True
    with Inr sel show ?thesis
      by (simp add: correlation_block_def page_correlation_def Let_def follows_def)
  next
    case False
    have "correlation_block data u =
        ([Subheader ''Correlation Analysis'',
          Multiselect ''Select numeric columns for correlation matrix:''
            (columns (select_dtypes NumberT data)) (columns (select_dtypes NumberT data)),
          Heatmap (concat (map (named data) sel))], None)"
      using Inr False sub by (simp add: correlation_block_def Let_def)
    moreover have "page_correlation data u =
        [Subheader ''Correlation Analysis'',
          Multiselect ''Select numeric columns for correlation matrix:''
            (columns (select_dtypes NumberT data)) (columns (select_dtypes NumberT data)),
          Heatmap (concat (map (named data) sel))]"
      using False sel by (simp add: page_correlation_def Let_def)
    ultimately show ?thesis by (simp add: follows_def)
  qed
qed

lemma wind_present:
  assumes "distinct (map cname data)"
    and "''WD'' \<in> set (columns data)" and "''WS'' \<in> set (columns data)"
  shows "\<exists>wd ws. named data ''WD'' = [wd] \<and> named data ''WS'' = [ws] \<and>
           wind_block data = ([Subheader ''Wind Analysis'', PolarScatter wd ws], None) \<and>
           page_wind data = [Subheader ''Wind Analysis'', PolarScatter wd ws]"
proof -
  from assms(1,2) obtain wd where wd: "getitem data ''WD'' = Inr wd" "named data ''WD'' = [wd]"
    using getitem_named by blast
  from assms(1,3) obtain ws where ws: "getitem data ''WS'' = Inr ws" "named data ''WS'' = [ws]"
    using getitem_named by blast
  have "wind_block data = ([Subheader ''Wind Analysis'', PolarScatter wd ws], None)"
    using assms(2,3) wd(1) ws(1) by (simp add: wind_block_def)
  moreover have "page_wind data = [Subheader ''Wind Analysis'', PolarScatter wd ws]"
    using assms(2,3) wd(2) ws(2) by (simp add: page_wind_def)
  ultimately show ?thesis using wd(2) ws(2) by blast
qed

lemma wind_follows:
  assumes "distinct (map cname data)"
  shows "follows (wind_block data) (page_wind data)"
proof (cases "''WD'' \<in> set (columns data) \<and> ''WS'' \<in> set (columns data)")
  case True
  with assms obtain wd ws where
    "wind_block data = ([Subheader ''Wind Analysis'', PolarScatter wd ws], None)"
    "page_wind data = [Subheader ''Wind Analysis'', PolarScatter wd ws]"
    using wind_present by blast
  then show ?thesis by (simp add: follows_def)
next
  case False
  then have "wind_block data =
      ([Warning ''Wind direction (WD) or speed (WS) columns are missing!''], None)"
    unfolding wind_block_def by (rule if_not_P)
  moreover from False have "page_wind data =
      [Warning ''Wind direction (WD) or speed (WS) columns are missing!'']"
    unfolding page_wind_def by (rule if_not_P)
  ultimately show ?thesis by (simp add: follows_def)
qed

lemma eda_follows:
  assumes "distinct (map cname data)"
  shows "follows (eda_section L data u)
     ([Header ''Exploratory Data Analysis (EDA)''] @ page_lines data u @
      page_histogram data u @ page_correlation data u @ page_wind data)"
  unfolding eda_section_def
  by (intro follows_and_then follows_plain line_chart_follows histogram_follows
      correlation_follows wind_follows assms)

subsection \<open>The cleaning section\<close>

lemma fst_quality_check: "fst (quality_check df u) = page_missing df u"
  by (simp add: quality_check_def page_missing_def Let_def isnull_total isnull_positive
      split: handle_choice.split)

lemma fst_cleaned_preview:
  "fst (cleaned_preview L data u) =
     [Sidebar (Header ''Cleaning Options''), Sidebar (Checkbox ''Show cleaned data'')] @
     (if clean_data u
      then Write ''### Cleaned Data Preview'' #
           (if shows_table L (head data) then [WriteTable (head data)] else [])
      else [])"
  by (simp add: cleaned_preview_def and_then_def render_def)

lemma fst_cleaning_section:
  assumes "wf_frame data0"
  shows "fst (cleaning_section L data0 u) =
     (if \<not> shows_table L (head data0) then [Subheader ''Raw Data Preview'']
      else [Subheader ''Raw Data Preview'', WriteTable (head data0)] @
           page_overview data0 @ page_missing data0 u @ page_types (handled data0 u) @
           fst (cleaned_preview L (coerced L data0 u) u))"
  using coerce_handled [OF assms, of L u] fst_quality_check [of data0 u] handled_eq [of data0 u]
  by (simp add: cleaning_section_def Let_def split_beta page_overview_def page_types_def
      split: option.split)

lemma cleaning_follows:
  assumes "wf_frame data0"
  shows "follows
     (banner @ fst (cleaning_section L data0 u),
      case cleaned L data0 u of Inl e \<Rightarrow> Some e | Inr data \<Rightarrow> None)
     (page_load data0 @ page_overview data0 @ page_missing data0 u @
      page_types (handled data0 u) @ page_preview (coerced L data0 u) u)"
  by (simp add: fst_cleaning_section [OF assms] cleaned_eq [OF assms] fst_cleaned_preview
      follows_def banner_def page_load_def page_preview_def)

lemma run_follows:
  assumes "wf_frame data0"
  shows "follows (run L (Some data0) u) (expected_page L data0 u)"
proof (cases "cleaned L data0 u")
  case (Inl e)
  have "follows (banner @ fst (cleaning_section L data0 u), Some e)
     (page_load data0 @ page_overview data0 @ page_missing data0 u @
      page_types (handled data0 u) @ page_preview (coerced L data0 u) u)"
    using cleaning_follows [OF assms, of L u] Inl by simp
  then have "prefix (banner @ fst (cleaning_section L data0 u))
     (page_load data0 @ page_overview data0 @ page_missing data0 u @
      page_types (handled data0 u) @ page_preview (coerced L data0 u) u)"
    by (simp add: follows_def)
  then have "prefix (banner @ fst (cleaning_section L data0 u))
     ((page_load data0 @ page_overview data0 @ page_missing data0 u @
       page_types (handled data0 u) @ page_preview (coerced L data0 u) u) @
      ([Header ''Exploratory Data Analysis (EDA)''] @
       page_lines (coerced L data0 u) u @ page_histogram (coerced L data0 u) u @
       page_correlation (coerced L data0 u) u @ page_wind (coerced L data0 u)) @ page_about)"
    by (rule prefix_prefix)
  then have "prefix (banner @ fst (cleaning_section L data0 u)) (expected_page L data0 u)"
    by (simp add: expected_page_def)
  with Inl show ?thesis by (simp add: run_cases follows_def)
next
  case (Inr data)
  with assms have data: "data = coerced L data0 u"
    by (simp add: cleaned_eq split: if_splits)
  have "columns (coerced L data0 u) = columns data0" by (rule columns_coerced)
  then have "map cname (coerced L data0 u) = map cname data0" by (simp add: columns_def)
  with assms have names: "distinct (map cname (coerced L data0 u))"
    by (simp add: wf_frame_def)
  have a: "follows (banner @ fst (cleaning_section L data0 u), None)
     (page_load data0 @ page_overview data0 @ page_missing data0 u @
      page_types (handled data0 u) @ page_preview (coerced L data0 u) u)"
    using cleaning_follows [OF assms, of L u] Inr by simp
  have b: "follows (eda_section L (coerced L data0 u) u)
     ([Header ''Exploratory Data Analysis (EDA)''] @ page_lines (coerced L data0 u) u @
      page_histogram (coerced L data0 u) u @ page_correlation (coerced L data0 u) u @
      page_wind (coerced L data0 u))"
    using names by (rule eda_follows)
  have c: "follows (about, None) (page_about :: 'a element list)"
    by (simp add: follows_def about_def page_about_def)
  have "follows
     (and_then
       (and_then (banner @ fst (cleaning_section L data0 u), None)
         (eda_section L (coerced L data0 u) u))
       (about, None))
     (((page_load data0 @ page_overview data0 @ page_missing data0 u @
        page_types (handled data0 u) @ page_preview (coerced L data0 u) u) @
       ([Header ''Exploratory Data Analysis (EDA)''] @ page_lines (coerced L data0 u) u @
        page_histogram (coerced L data0 u) u @ page_correlation (coerced L data0 u) u @
        page_wind (coerced L data0 u))) @ page_about)"
    by (intro follows_and_then a b c)
  then show ?thesis using Inr data by (simp add: run_cases expected_page_def)
qed

lemma run_completed:
  assumes "wf_frame data0" and "snd (run L (Some data0) u) = None"
  shows "cleaned L data0 u = Inr (coerced L data0 u)"
proof (cases "cleaned L data0 u")
  case (Inl e)
  with assms(2) show ?thesis by (simp add: run_cases)
next
  case (Inr data)
  with assms(1) show ?thesis by (simp add: cleaned_eq split: if_splits)
qed

text \<open>
  C6. On every loaded table the page of the run is, element by element and in this
  order: the preview of the table as loaded, its shape and columns, the missing-value
  report on the table as loaded, the types of the table after the optional fill or drop
  (which is applied to the table as loaded, before any coercion), the optional preview of
  the coerced table, and the four chart sections, all drawn from the coerced table. A run
  that an exception stops shows a beginning of that page and nothing else; a run that
  completes shows all of it, and its charts read the coercion of the filled or dropped
  table.
\<close>

theorem pipeline_order:
  fixes L :: "'n library"
  assumes "wf_frame data0"
  shows "prefix (fst (run L (Some data0) u)) (expected_page L data0 u) \<and>
         (snd (run L (Some data0) u) = None \<longrightarrow>
            fst (run L (Some data0) u) = expected_page L data0 u \<and>
            cleaned L data0 u = Inr (map (coerced_column L) (handled data0 u)))"
proof -
  have "follows (run L (Some data0) u) (expected_page L data0 u)"
    using assms by (rule run_follows)
  then have "prefix (fst (run L (Some data0) u)) (expected_page L data0 u)"
    and "snd (run L (Some data0) u) = None \<longrightarrow>
         fst (run L (Some data0) u) = expected_page L data0 u"
    by (simp_all add: follows_def split: if_splits)
  moreover have "snd (run L (Some data0) u) = None \<longrightarrow>
      cleaned L data0 u = Inr (map (coerced_column L) (handled data0 u))"
    using run_completed [OF assms, of L u] by (simp add: coerced_def)
  ultimately show ?thesis by simp
qed

theorem pipeline_order_witness:
  "wf_frame readings \<and>
   snd (run decimal_lib (Some readings) drop_and_preview) = None \<and>
   cleaned decimal_lib readings drop_and_preview =
     Inr [\<lparr>cname = ''GHI'', dtype = NumberT, cells = [Num 1, Num 3]\<rparr>,
          \<lparr>cname = ''DNI'', dtype = NumberT, cells = [Num 4, Num 6]\<rparr>,
          \<lparr>cname = ''DHI'', dtype = NumberT, cells = [Num 7, NA]\<rparr>] \<and>
   fst (run decimal_lib (Some readings) drop_and_preview) =
     [Title ''Solar Farm Data Analysis Dashboard'',
      Header ''Data Understanding and Cleaning'',
      FileUploader ''Upload CSV File for Analysis'',
      Subheader ''Raw Data Preview'',
      WriteTable
        [\<lparr>cname = ''GHI'', dtype = NumberT, cells = [Num 1, NA, Num 3]\<rparr>,
         \<lparr>cname = ''DNI'', dtype = NumberT, cells = [Num 4, Num 5, Num 6]\<rparr>,
         \<lparr>cname = ''DHI'', dtype = ObjectT, cells = [Str ''7'', Str ''8'', Str ''x'']\<rparr>],
      Subheader ''Dataset Overview'',
      WriteShape ''Shape of the data:'' (3, 3),
      WriteColumns ''Columns in the dataset:'' [''GHI'', ''DNI'', ''DHI''],
      Subheader ''Data Quality Check'',
      Write ''Missing values in each column:'',
      WriteCounts [(''GHI'', 1)],
      Radio ''Select how to handle missing values:''
        [''No action'', ''Forward fill'', ''Drop rows with missing values''],
      Success ''Rows with missing values have been dropped!'',
      Subheader ''Column Data Types'',
      WriteDtypes [(''GHI'', NumberT), (''DNI'', NumberT), (''DHI'', ObjectT)],
      Sidebar (Header ''Cleaning Options''),
      Sidebar (Checkbox ''Show cleaned data''),
      Write ''### Cleaned Data Preview'',
      WriteTable
        [\<lparr>cname = ''GHI'', dtype = NumberT, cells = [Num 1, Num 3]\<rparr>,
         \<lparr>cname = ''DNI'', dtype = NumberT, cells = [Num 4, Num 6]\<rparr>,
         \<lparr>cname = ''DHI'', dtype = NumberT, cells = [Num 7, NA]\<rparr>],
      Header ''Exploratory Data Analysis (EDA)'',
      Subheader ''Solar Radiation Trends'',
      Multiselect ''Select columns for line chart:'' [''GHI'', ''DNI'', ''DHI'']
        [''GHI'', ''DNI'', ''DHI''],
      LineChart
        [\<lparr>cname = ''GHI'', dtype = NumberT, cells = [Num 1, Num 3]\<rparr>,
         \<lparr>cname = ''DNI'', dtype = NumberT, cells = [Num 4, Num 6]\<rparr>,
         \<lparr>cname = ''DHI'', dtype = NumberT, cells = [Num 7, NA]\<rparr>],
      Subheader ''Histogram for Global Horizontal Irradiance (GHI)'',
      Slider ''Select number of bins:'' 5 50 20,
      HistPlot \<lparr>cname = ''GHI'', dtype = NumberT, cells = [Num 1, Num 3]\<rparr> 20,
      Subheader ''Correlation Analysis'',
      Multiselect ''Select numeric columns for correlation matrix:''
        [''GHI'', ''DNI'', ''DHI''] [''GHI'', ''DNI'', ''DHI''],
      Heatmap
        [\<lparr>cname = ''GHI'', dtype = NumberT, cells = [Num 1, Num 3]\<rparr>,
         \<lparr>cname = ''DNI'', dtype = NumberT, cells = [Num 4, Num 6]\<rparr>,
         \<lparr>cname = ''DHI'', dtype = NumberT, cells = [Num 7, NA]\<rparr>],
      Warning ''Wind direction (WD) or speed (WS) columns are missing!'',
      Sidebar (Write ''### About''),
      Sidebar (Info ''This dashboard allows users to perform data cleaning and exploratory data analysis on solar farm data.'')]"
proof -
  have wf: "wf_frame readings" by code_simp
  have completes: "snd (run decimal_lib (Some readings) drop_and_preview) = None" by code_simp
  have tbl: "map (coerced_column decimal_lib) (handled readings drop_and_preview) =
     [\<lparr>cname = ''GHI'', dtype = NumberT, cells = [Num 1, Num 3]\<rparr>,
      \<lparr>cname = ''DNI'', dtype = NumberT, cells = [Num 4, Num 6]\<rparr>,
      \<lparr>cname = ''DHI'', dtype = NumberT, cells = [Num 7, NA]\<rparr>]"
    by code_simp
  have page: "expected_page decimal_lib readings drop_and_preview =
     [Title ''Solar Farm Data Analysis Dashboard'',
      Header ''Data Understanding and Cleaning'',
      FileUploader ''Upload CSV File for Analysis'',
      Subheader ''Raw Data Preview'',
      WriteTable
        [\<lparr>cname = ''GHI'', dtype = NumberT, cells = [Num 1, NA, Num 3]\<rparr>,
         \<lparr>cname = ''DNI'', dtype = NumberT, cells = [Num 4, Num 5, Num 6]\<rparr>,
         \<lparr>cname = ''DHI'', dtype = ObjectT, cells = [Str ''7'', Str ''8'', Str ''x'']\<rparr>],
      Subheader ''Dataset Overview'',
      WriteShape ''Shape of the data:'' (3, 3),
      WriteColumns ''Columns in the dataset:'' [''GHI'', ''DNI'', ''DHI''],
      Subheader ''Data Quality Check'',
      Write ''Missing values in each column:'',
      WriteCounts [(''GHI'', 1)],
      Radio ''Select how to handle missing values:''
        [''No action'', ''Forward fill'', ''Drop rows with missing values''],
      Success ''Rows with missing values have been dropped!'',
      Subheader ''Column Data Types'',
      WriteDtypes [(''GHI'', NumberT), (''DNI'', NumberT), (''DHI'', ObjectT)],
      Sidebar (Header ''Cleaning Options''),
      Sidebar (Checkbox ''Show cleaned data''),
      Write ''### Cleaned Data Preview'',
      WriteTable
        [\<lparr>cname = ''GHI'', dtype = NumberT, cells = [Num 1, Num 3]\<rparr>,
         \<lparr>cname = ''DNI'', dtype = NumberT, cells = [Num 4, Num 6]\<rparr>,
         \<lparr>cname = ''DHI'', dtype = NumberT, cells = [Num 7, NA]\<rparr>],
      Header ''Exploratory Data Analysis (EDA)'',
      Subheader ''Solar Radiation Trends'',
      Multiselect ''Select columns for line chart:'' [''GHI'', ''DNI'', ''DHI'']
        [''GHI'', ''DNI'', ''DHI''],
      LineChart
        [\<lparr>cname = ''GHI'', dtype = NumberT, cells = [Num 1, Num 3]\<rparr>,
         \<lparr>cname = ''DNI'', dtype = NumberT, cells = [Num 4, Num 6]\<rparr>,
         \<lparr>cname = ''DHI'', dtype = NumberT, cells = [Num 7, NA]\<rparr>],
      Subheader ''Histogram for Global Horizontal Irradiance (GHI)'',
      Slider ''Select number of bins:'' 5 50 20,
      HistPlot \<lparr>cname = ''GHI'', dtype = NumberT, cells = [Num 1, Num 3]\<rparr> 20,
      Subheader ''Correlation Analysis'',
      Multiselect ''Select numeric columns for correlation matrix:''
        [''GHI'', ''DNI'', ''DHI''] [''GHI'', ''DNI'', ''DHI''],
      Heatmap
        [\<lparr>cname = ''GHI'', dtype = NumberT, cells = [Num 1, Num 3]\<rparr>,
         \<lparr>cname = ''DNI'', dtype = NumberT, cells = [Num 4, Num 6]\<rparr>,
         \<lparr>cname = ''DHI'', dtype = NumberT, cells = [Num 7, NA]\<rparr>],
      Warning ''Wind direction (WD) or speed (WS) columns are missing!'',
      Sidebar (Write ''### About''),
      Sidebar (Info ''This dashboard allows users to perform data cleaning and exploratory data analysis on solar farm data.'')]"
    by code_simp
  note inst = pipeline_order [OF wf, of decimal_lib drop_and_preview]
  from inst have "snd (run decimal_lib (Some readings) drop_and_preview) = None \<longrightarrow>
      fst (run decimal_lib (Some readings) drop_and_preview) =
        expected_page decimal_lib readings drop_and_preview \<and>
      cleaned decimal_lib readings drop_and_preview =
        Inr (map (coerced_column decimal_lib) (handled readings drop_and_preview))"
    by (elim conjE)
  from this completes have both:
     "fst (run decimal_lib (Some readings) drop_and_preview) =
        expected_page decimal_lib readings drop_and_preview \<and>
      cleaned decimal_lib readings drop_and_preview =
        Inr (map (coerced_column decimal_lib) (handled readings drop_and_preview))"
    by (rule mp)
  from both have a: "fst (run decimal_lib (Some readings) drop_and_preview) =
      expected_page decimal_lib readings drop_and_preview"
    by (elim conjE)
  from both have b: "cleaned decimal_lib readings drop_and_preview =
      Inr (map (coerced_column decimal_lib) (handled readings drop_and_preview))"
    by (elim conjE)
  show ?thesis
    unfolding a b page tbl using wf completes by (intro conjI refl)
qed

section \<open>The wind scatter\<close>





















section \<open>The unguarded default of the line chart\<close>

lemma default_absent:
  assumes "''GHI'' \<notin> set (columns data)"
  shows "multiselect (columns (select_dtypes NumberT data)) [''GHI'', ''DNI'', ''DHI''] picked =
         Inl StreamlitAPIException"
proof -
  from assms have "''GHI'' \<notin> set (columns (select_dtypes NumberT data))"
    using numeric_columns_known by blast
  then show ?thesis by (simp add: multiselect_def)
qed

lemma eda_section_absent:
  assumes "''GHI'' \<notin> set (columns data)"
  shows "eda_section L data u =
     ([Header ''Exploratory Data Analysis (EDA)'', Subheader ''Solar Radiation Trends''],
      Some StreamlitAPIException)"
  by (simp add: eda_section_def line_chart_block_def Let_def default_absent [OF assms]
      and_then_def)

lemma cleaning_never_warns:
  assumes "wf_frame data0"
  shows "Warning w \<notin> set (fst (cleaning_section L data0 u))"
  by (simp add: fst_cleaning_section [OF assms] fst_cleaned_preview page_overview_def
      page_missing_def page_types_def split: handle_choice.split)

text \<open>
  A table without a GHI column never gets the histogram section's warning, whatever the
  user does: the run is stopped by an exception, that of the line-chart multiselect if
  none comes earlier.
\<close>

lemma absent_GHI_always_raises:
  assumes "wf_frame data0" and "''GHI'' \<notin> set (columns data0)"
  shows "snd (run L (Some data0) u) \<noteq> None \<and>
         Warning ''GHI column is missing in the dataset!'' \<notin> set (fst (run L (Some data0) u))"
proof (cases "cleaned L data0 u")
  case (Inl e)
  then show ?thesis
    using cleaning_never_warns [OF assms(1), of _ L u] by (simp add: run_cases banner_def)
next
  case (Inr data)
  with assms(1) have "data = coerced L data0 u" by (simp add: cleaned_eq split: if_splits)
  moreover have "columns (coerced L data0 u) = columns data0" by (rule columns_coerced)
  ultimately have "''GHI'' \<notin> set (columns data)" using assms(2) by simp
  then have "eda_section L data u =
     ([Header ''Exploratory Data Analysis (EDA)'', Subheader ''Solar Radiation Trends''],
      Some StreamlitAPIException)"
    by (rule eda_section_absent)
  then show ?thesis
    using Inr cleaning_never_warns [OF assms(1), of _ L u]
    by (simp add: run_cases and_then_def banner_def)
qed

text \<open>
  With \<^verbatim>\<open>errors='raise'\<close> in place of \<^verbatim>\<open>errors='coerce'\<close> the conversion of a text column
  with an entry that is no number does raise the ValueError the loop catches.
\<close>

lemma to_numeric_raise:
  assumes "dtype col = ObjectT" and "parse_num L s = None" and "Str s \<in> set (cells col)"
  shows "to_numeric L Raise col = Inl ValueError"
proof -
  from assms(2) have "\<not> parseable L (Str s)" by (simp add: parseable_def)
  with assms(3) have "\<not> list_all (parseable L) (cells col)" by (auto simp: list_all_iff)
  with assms(1) show ?thesis by (simp add: to_numeric_def)
qed

end
